theory Spec2Isabelle
  imports Complex_Main "HOL-Library.Log_Nat"
begin

section \<open>Data model\<close>

text \<open>
  The reaction-time task keeps a log of trials and reduces it to statistics once the
  session ends. Optional fields of the source (\<^verbatim>\<open>respondedAt?\<close>, \<^verbatim>\<open>rt?\<close>,
  \<^verbatim>\<open>wrongKey?\<close>, \<^verbatim>\<open>missed?\<close>) are options, \<open>None\<close> standing for an absent field.
  Numbers are the source's \<^verbatim>\<open>number\<close>, binary64 floating point, read as the reals they
  denote. The arithmetic of the stats engine (the sum and the quotient of the mean, the
  half-sum of the median, the product and the quotient of the rounding to one decimal,
  the percentages) rounds every result to binary64, see \<open>fl\<close> below; time stamps and
  the bins of the histogram are read over the reals. Signed zeros and infinities are
  outside the model.
\<close>

datatype Color = R | Y | G

datatype Phase = idle | armed | awaiting_L | stimulus_on | finished

record Trial =
  color :: Color
  onset :: real
  respondedAt :: "real option"
  rt :: "real option"
  correct :: bool
  premature :: bool
  wrongKey :: "string option"
  missed :: "bool option"

text \<open>
  A value a numeric expression of the source can yield: \<^verbatim>\<open>undefined\<close>, \<^verbatim>\<open>NaN\<close> or a
  number. The non-null assertion \<^verbatim>\<open>t.rt!\<close> does nothing at run time, so a sample array
  can hold \<^verbatim>\<open>undefined\<close>: sample arrays are lists of \<open>real option\<close>.
\<close>

datatype jsval = Undefined | NaN | Num real

fun to_number :: "real option \<Rightarrow> jsval" where
  "to_number None = NaN"
| "to_number (Some x) = Num x"

fun js_min2 :: "jsval \<Rightarrow> jsval \<Rightarrow> jsval" where
  "js_min2 (Num a) (Num b) = Num (min a b)"
| "js_min2 _ _ = NaN"

fun js_max2 :: "jsval \<Rightarrow> jsval \<Rightarrow> jsval" where
  "js_max2 (Num a) (Num b) = Num (max a b)"
| "js_max2 _ _ = NaN"

text \<open>\<^verbatim>\<open>a <= b\<close> on such values: false as soon as one side is not a number.\<close>

fun js_le :: "jsval \<Rightarrow> jsval \<Rightarrow> bool" where
  "js_le (Num a) (Num b) = (a \<le> b)"
| "js_le _ _ = False"

record PerColor =
  attempts :: nat
  pc_correct :: nat
  pc_accuracy :: real
  avgRT :: jsval
  medianRT :: jsval
  minRT :: jsval
  maxRT :: jsval

record OverallStats =
  totalTrials :: nat
  completedTrials :: nat
  n_correct :: nat
  accuracy :: real
  prematureErrors :: nat
  wrongKeyErrors :: nat
  misses :: nat
  overallAvgRT :: jsval
  overallMedianRT :: jsval
  perColor :: "Color \<Rightarrow> PerColor"
  rtSamples :: "real option list"
  rtSamplesByColor :: "Color \<Rightarrow> real option list"

section \<open>Configuration\<close>

definition TEST_DURATION_MS :: real where "TEST_DURATION_MS = 60000"
definition L_HOLD_MS :: real where "L_HOLD_MS = 200"
definition MAX_RT_MS :: real where "MAX_RT_MS = 5000"
definition KEY_DEBOUNCE_MS :: real where "KEY_DEBOUNCE_MS = 100"

section \<open>Binary64 arithmetic\<close>

text \<open>
  An arithmetic operation of the source yields the exact result rounded to the nearest
  binary64 number, a tie going to the number with the even significand. \<open>round_even\<close> is
  that rounding to an integer; \<open>expo x\<close> is the exponent \<open>e\<close> with
  \<open>2 powi e \<le> \<bar>x\<bar> < 2 powi (e + 1)\<close>, read off the bit length \<open>bitlen\<close> of the integer
  part of \<open>\<bar>x\<bar>\<close> (of \<open>\<lceil>1 / \<bar>x\<bar>\<rceil> - 1\<close> below 1); the binary64 numbers around \<open>x\<close> are the
  integer multiples of \<open>2 powi (expo x - 52)\<close>, and \<open>fl x\<close> is the nearest of them.

  The exponent is not bounded: \<open>fl\<close> is the rounding of binary64 wherever the result is
  zero or has a magnitude from \<open>2 powi (-1022)\<close> up to the largest binary64 number.
  Overflow to \<^verbatim>\<open>Infinity\<close> and results in the subnormal range are not modelled; the
  properties of the mean and the median are stated for samples on which neither occurs.
\<close>

definition round_even :: "real \<Rightarrow> int" where
  "round_even y =
     (let f = \<lfloor>y\<rfloor>; d = y - real_of_int f
      in if d < 1 / 2 then f else if 1 / 2 < d then f + 1 else if even f then f else f + 1)"

definition expo :: "real \<Rightarrow> int" where
  "expo x = (if 1 \<le> \<bar>x\<bar> then bitlen \<lfloor>\<bar>x\<bar>\<rfloor> - 1 else - bitlen (\<lceil>1 / \<bar>x\<bar>\<rceil> - 1))"

definition fl :: "real \<Rightarrow> real" where
  "fl x = (if x = 0 then 0
           else real_of_int (round_even (x / 2 powi (expo x - 52))) * 2 powi (expo x - 52))"

section \<open>Stats engine\<close>

text \<open>\<^verbatim>\<open>a + b\<close> on two values: the rounded sum of two numbers, \<^verbatim>\<open>NaN\<close> otherwise.\<close>

fun js_add :: "jsval \<Rightarrow> jsval \<Rightarrow> jsval" where
  "js_add (Num a) (Num b) = Num (fl (a + b))"
| "js_add _ _ = NaN"

text \<open>
  \<^verbatim>\<open>Math.round(x*10)/10\<close>. The product is rounded to binary64; \<^verbatim>\<open>Math.round\<close> of a
  number \<open>y\<close> is the integer \<open>\<lfloor>y + 1/2\<rfloor>\<close> (ties go up), which is a binary64 number
  whenever \<open>y\<close> is; the quotient by 10 is rounded to binary64 again.
\<close>

definition round1_num :: "real \<Rightarrow> real" where
  "round1_num x = fl (real_of_int \<lfloor>fl (x * 10) + 1 / 2\<rfloor> / 10)"

fun round1 :: "jsval \<Rightarrow> jsval" where
  "round1 (Num x) = Num (round1_num x)"
| "round1 _ = NaN"

text \<open>
  \<^verbatim>\<open>arr.length ? arr.reduce((a,b)=>a+b,0)/arr.length : NaN\<close>: the running sum starts at 0
  and takes the elements from left to right, every partial sum being rounded; the
  quotient is rounded once more. The division is reached with a positive length only.
\<close>

definition avg :: "real option list \<Rightarrow> jsval" where
  "avg arr =
     (if arr \<noteq> [] then
        (case fold (\<lambda>b a. js_add a (to_number b)) arr (Num 0) of
           Num s \<Rightarrow> Num (fl (s / real (length arr)))
         | _ \<Rightarrow> NaN)
      else NaN)"

text \<open>
  \<^verbatim>\<open>[...arr].sort((a,b)=>a-b)\<close>: the numbers in ascending order; \<^verbatim>\<open>undefined\<close>
  elements are moved to the end without being compared.
\<close>

definition js_sort :: "real option list \<Rightarrow> real option list" where
  "js_sort arr =
     map Some (sort (List.map_filter id arr)) @ replicate (length (filter (\<lambda>v. v = None) arr)) None"

text \<open>\<^verbatim>\<open>s[i]\<close>: \<^verbatim>\<open>undefined\<close> beyond the end and where the element is \<^verbatim>\<open>undefined\<close>.\<close>

definition js_nth :: "real option list \<Rightarrow> nat \<Rightarrow> jsval" where
  "js_nth s i = (if i < length s then (case s ! i of None \<Rightarrow> Undefined | Some x \<Rightarrow> Num x) else Undefined)"

fun js_half :: "jsval \<Rightarrow> jsval" where
  "js_half (Num x) = Num (fl (x / 2))"
| "js_half _ = NaN"

text \<open>
  In the even case the length is at least 2, so \<open>m - 1\<close> is the index below \<open>m\<close>.
\<close>

definition median :: "real option list \<Rightarrow> jsval" where
  "median arr =
     (if arr = [] then NaN
      else let s = js_sort arr; m = length s div 2
           in if length s mod 2 \<noteq> 0 then js_nth s m
              else js_half (js_add (js_nth s (m - 1)) (js_nth s m)))"

text \<open>
  \<^verbatim>\<open>Math.min(...arr)\<close> and \<^verbatim>\<open>Math.max(...arr)\<close> are called under \<^verbatim>\<open>if (arr.length)\<close>
  only, so they take the first element and the rest.
\<close>

definition Math_min :: "real option \<Rightarrow> real option list \<Rightarrow> jsval" where
  "Math_min v vs = fold (\<lambda>b a. js_min2 a (to_number b)) vs (to_number v)"

definition Math_max :: "real option \<Rightarrow> real option list \<Rightarrow> jsval" where
  "Math_max v vs = fold (\<lambda>b a. js_max2 a (to_number b)) vs (to_number v)"

text \<open>The local variables of \<^verbatim>\<open>computeStats\<close> that the loop updates.\<close>

record Acc =
  accPerColor :: "Color \<Rightarrow> PerColor"
  rtAllCorrect :: "real option list"
  rtByColor :: "Color \<Rightarrow> real option list"
  accPremature :: nat
  accWrongKey :: nat
  accMisses :: nat
  accCompleted :: nat

definition perColorInit :: PerColor where
  "perColorInit = \<lparr>attempts = 0, pc_correct = 0, pc_accuracy = 0, avgRT = Undefined,
     medianRT = Undefined, minRT = Undefined, maxRT = Undefined\<rparr>"

definition accInit :: Acc where
  "accInit = \<lparr>accPerColor = (\<lambda>c. perColorInit), rtAllCorrect = [], rtByColor = (\<lambda>c. []),
     accPremature = 0, accWrongKey = 0, accMisses = 0, accCompleted = 0\<rparr>"

text \<open>One iteration of \<^verbatim>\<open>for (const t of trs)\<close>.\<close>

definition loopBody :: "Trial \<Rightarrow> Acc \<Rightarrow> Acc" where
  "loopBody t a =
     (let p = accPerColor a (color t);
          a1 = a\<lparr>accCompleted := accCompleted a + 1,
                 accPerColor := (accPerColor a)(color t := p\<lparr>attempts := attempts p + 1\<rparr>)\<rparr>;
          a2 = (if premature t then a1\<lparr>accPremature := accPremature a1 + 1\<rparr> else a1)
      in if missed t = Some True then a2\<lparr>accMisses := accMisses a2 + 1\<rparr>
         else if respondedAt t \<noteq> None then
           (if correct t then
              (let q = accPerColor a2 (color t)
               in a2\<lparr>accPerColor := (accPerColor a2)(color t := q\<lparr>pc_correct := pc_correct q + 1\<rparr>),
                     rtAllCorrect := rtAllCorrect a2 @ [rt t],
                     rtByColor := (rtByColor a2)(color t := rtByColor a2 (color t) @ [rt t])\<rparr>)
            else a2\<lparr>accWrongKey := accWrongKey a2 + 1\<rparr>)
         else a2\<lparr>accMisses := accMisses a2 + 1\<rparr>)"

text \<open>The body of \<^verbatim>\<open>(['R','Y','G']).forEach(c => ...)\<close> for one colour.\<close>

definition finishColor :: "PerColor \<Rightarrow> real option list \<Rightarrow> PerColor" where
  "finishColor p arr =
     (let p1 = p\<lparr>pc_accuracy := (if attempts p \<noteq> 0
                   then round1_num (fl (fl (100 * real (pc_correct p)) / real (attempts p)))
                   else 0)\<rparr>
      in case arr of
           [] \<Rightarrow> p1
         | v # vs \<Rightarrow> p1\<lparr>avgRT := round1 (avg arr), medianRT := round1 (median arr),
                        minRT := Math_min v vs, maxRT := Math_max v vs\<rparr>)"

definition computeStats :: "Trial list \<Rightarrow> OverallStats" where
  "computeStats trs =
     (let a = fold loopBody trs accInit;
          overallAvgRT' = avg (rtAllCorrect a);
          overallMedianRT' = median (rtAllCorrect a);
          perColor' = (\<lambda>c. finishColor (accPerColor a c) (rtByColor a c));
          totalTrials' = length trs;
          correct' = length (rtAllCorrect a)
      in \<lparr>totalTrials = totalTrials',
          completedTrials = accCompleted a,
          n_correct = correct',
          accuracy = (if totalTrials' \<noteq> 0
                      then round1_num (fl (fl (100 * real correct') / real totalTrials')) else 0),
          prematureErrors = accPremature a,
          wrongKeyErrors = accWrongKey a,
          misses = accMisses a,
          overallAvgRT = (if rtAllCorrect a \<noteq> [] then round1 overallAvgRT' else Undefined),
          overallMedianRT = (if rtAllCorrect a \<noteq> [] then round1 overallMedianRT' else Undefined),
          perColor = perColor',
          rtSamples = rtAllCorrect a,
          rtSamplesByColor = rtByColor a\<rparr>)"

section \<open>Histogram\<close>

record Histogram =
  edges :: "real list"
  counts :: "nat list"
  max_count :: nat

text \<open>
  The bin of one latency: \<^verbatim>\<open>Math.floor(v / step)\<close>, clamped into \<open>0 .. bins - 1\<close>.
  The program calls \<^verbatim>\<open>histogram\<close> with \<open>bins = 10\<close> only; \<open>bins = 0\<close> would make
  \<^verbatim>\<open>step\<close> infinite in the source and is outside the model.
\<close>

definition binIndex :: "real \<Rightarrow> nat \<Rightarrow> nat" where
  "binIndex v bins =
     (let step = MAX_RT_MS / real bins;
          idx = \<lfloor>v / step\<rfloor>;
          idx1 = (if idx < 0 then 0 else idx);
          idx2 = (if idx1 \<ge> int bins then int bins - 1 else idx1)
      in nat idx2)"

definition histogram :: "real list \<Rightarrow> nat \<Rightarrow> Histogram" where
  "histogram rts bins =
     (let step = MAX_RT_MS / real bins;
          edges' = map (\<lambda>i. real i * step) [0 ..< bins + 1];
          counts' = fold (\<lambda>v cs. cs[binIndex v bins := cs ! binIndex v bins + 1]) rts
                      (replicate bins 0)
      in \<lparr>edges = edges', counts = counts', max_count = fold (\<lambda>c m. max m c) counts' 1\<rparr>)"

section \<open>Stimulus selection\<close>

text \<open>
  \<^verbatim>\<open>pickNextColor\<close> reads \<^verbatim>\<open>lastColor\<close> and one draw of \<^verbatim>\<open>Math.random()\<close>, here
  the argument \<open>rnd\<close>. \<^verbatim>\<open>candidates[i]\<close> is \<^verbatim>\<open>undefined\<close> outside the array: \<open>None\<close>.
\<close>

definition pickNextColor :: "Color option \<Rightarrow> real \<Rightarrow> Color option" where
  "pickNextColor lastColor' rnd =
     (let colors = [R, Y, G];
          candidates = (case lastColor' of
                          Some l \<Rightarrow> filter (\<lambda>c. c \<noteq> l) colors
                        | None \<Rightarrow> colors);
          i = \<lfloor>rnd * real (length candidates)\<rfloor>
      in if 0 \<le> i \<and> i < int (length candidates) then Some (candidates ! nat i) else None)"

section \<open>Persisted history\<close>

text \<open>
  The browser's storage holds at most one string under \<^verbatim>\<open>STORAGE_KEY\<close>, or refuses every
  access by throwing (\<open>Broken\<close>). \<^verbatim>\<open>JSON.parse\<close> and \<^verbatim>\<open>JSON.stringify\<close> belong to the
  platform and are parameters: \<open>parse raw\<close> is \<open>None\<close> where \<^verbatim>\<open>JSON.parse\<close> throws, an
  array of entries, or some other JSON value.
\<close>

datatype storage = Broken | Holds "string option"

datatype 'a parsed = JArray "'a list" | JOther

datatype storage_error = StorageError

definition loadTop5 :: "(string \<Rightarrow> 'a parsed option) \<Rightarrow> storage \<Rightarrow> 'a list" where
  "loadTop5 parse st =
     (case st of
        Broken \<Rightarrow> []
      | Holds None \<Rightarrow> []
      | Holds (Some raw) \<Rightarrow>
          if raw = [] then []
          else (case parse raw of
                  None \<Rightarrow> []
                | Some (JArray arr) \<Rightarrow> arr
                | Some JOther \<Rightarrow> []))"

text \<open>\<^verbatim>\<open>while (arr.length > 5) arr.pop()\<close>\<close>

function pop_while :: "'a list \<Rightarrow> 'a list" where
  "pop_while arr = (if length arr > 5 then pop_while (butlast arr) else arr)"
  by pat_completeness auto
termination
  by (relation "measure length") auto

declare pop_while.simps [simp del]

text \<open>
  \<^verbatim>\<open>persistTop5\<close> has no handler of its own: with a broken storage the exception of
  \<^verbatim>\<open>setItem\<close> leaves the function.
\<close>

definition persistTop5 ::
  "(string \<Rightarrow> 'a parsed option) \<Rightarrow> ('a list \<Rightarrow> string) \<Rightarrow> 'a \<Rightarrow> storage \<Rightarrow> storage_error + storage" where
  "persistTop5 parse stringify s st =
     (let arr = loadTop5 parse st;
          arr1 = s # arr;
          arr2 = pop_while arr1
      in case st of
           Broken \<Rightarrow> Inl StorageError
         | Holds _ \<Rightarrow> Inr (Holds (Some (stringify arr2))))"

section \<open>Session state machine\<close>

text \<open>
  The component's variables that the gate, the sequencer and the classifier read or write.
  Trial objects are shared between \<^verbatim>\<open>trials\<close>, \<^verbatim>\<open>currentTrial\<close> and the closures of the
  deadline timers, so they live in a store: \<open>heap\<close> lists every trial object created so
  far, and a reference to a trial is its position there. Display state
  (\<^verbatim>\<open>timeLeftMs\<close>, \<^verbatim>\<open>showSummary\<close>, \<^verbatim>\<open>summary\<close>, \<^verbatim>\<open>top5\<close>, the theme) is left out.

  The browser's timers are part of the state: \<open>timers\<close> holds the pending ones with
  their handle, the time they are due and what they run; handles are positive and never
  reused.
\<close>

datatype Callback = GateCb | DeadlineCb nat | TickCb | EndCb

record State =
  phase :: Phase
  testEndsAt :: real
  timerId :: "nat option"
  trials :: "nat list"
  currentTrial :: "nat option"
  heap :: "Trial list"
  lIsDown :: bool
  lDownAt :: real
  lGateTimer :: "nat option"
  lastColor :: "Color option"
  lastResponseAt :: real
  hasFocus :: bool
  flagPrematureForNext :: bool
  timers :: "(nat \<times> real \<times> Callback) list"
  timerSeq :: nat

definition init :: State where
  "init = \<lparr>phase = idle, testEndsAt = 0, timerId = None, trials = [], currentTrial = None,
     heap = [], lIsDown = False, lDownAt = 0, lGateTimer = None, lastColor = None,
     lastResponseAt = 0, hasFocus = True, flagPrematureForNext = False, timers = [],
     timerSeq = 0\<rparr>"

text \<open>\<^verbatim>\<open>if (handle)\<close>: a handle is truthy when it is set and not 0.\<close>

fun truthy_handle :: "nat option \<Rightarrow> bool" where
  "truthy_handle None = False"
| "truthy_handle (Some i) = (i \<noteq> 0)"

text \<open>\<^verbatim>\<open>!t.respondedAt\<close>: an absent time and the time 0 are both falsy.\<close>

fun falsy_time :: "real option \<Rightarrow> bool" where
  "falsy_time None = True"
| "falsy_time (Some x) = (x = 0)"

definition setTimeout :: "Callback \<Rightarrow> real \<Rightarrow> real \<Rightarrow> State \<Rightarrow> nat \<times> State" where
  "setTimeout cb delay now s =
     (Suc (timerSeq s),
      s\<lparr>timers := timers s @ [(Suc (timerSeq s), now + delay, cb)], timerSeq := Suc (timerSeq s)\<rparr>)"

definition clearTimeout :: "nat \<Rightarrow> State \<Rightarrow> State" where
  "clearTimeout i s = s\<lparr>timers := filter (\<lambda>e. fst e \<noteq> i) (timers s)\<rparr>"

definition clearTimer :: "State \<Rightarrow> State" where
  "clearTimer s =
     (case timerId s of
        Some i \<Rightarrow> if i \<noteq> 0 then (clearTimeout i s)\<lparr>timerId := None\<rparr> else s
      | None \<Rightarrow> s)"

definition endTest :: "State \<Rightarrow> State" where
  "endTest s = (if phase s = finished then s else (clearTimer s)\<lparr>phase := finished\<rparr>)"

text \<open>The callback of the 16 ms interval.\<close>

definition tick :: "real \<Rightarrow> State \<Rightarrow> State" where
  "tick t s =
     (if t \<ge> testEndsAt s then
        (let s1 = clearTimer s
         in if phase s1 = stimulus_on then snd (setTimeout EndCb (MAX_RT_MS + 50) t s1)
            else endTest s1)
      else s)"

definition startTest :: "real \<Rightarrow> State \<Rightarrow> State" where
  "startTest now s =
     (if phase s \<noteq> idle then s
      else let s1 = s\<lparr>trials := [], currentTrial := None, phase := armed,
                      testEndsAt := now + TEST_DURATION_MS\<rparr>;
               (i, s2) = setTimeout TickCb 16 now s1
           in s2\<lparr>timerId := Some i, phase := awaiting_L\<rparr>)"

text \<open>
  The callback armed by \<^verbatim>\<open>showNextStimulus\<close>, with \<open>a\<close> the trial \<^verbatim>\<open>myTrial\<close> it
  closed over.
\<close>

definition deadlineTimeout :: "nat \<Rightarrow> State \<Rightarrow> State" where
  "deadlineTimeout a s =
     (if phase s = stimulus_on \<and> currentTrial s = Some a \<and> falsy_time (respondedAt (heap s ! a))
      then s\<lparr>heap := (heap s)[a := (heap s ! a)\<lparr>missed := Some True\<rparr>], phase := awaiting_L\<rparr>
      else s)"

text \<open>
  \<open>rnd\<close> is the draw of \<^verbatim>\<open>Math.random()\<close>, a number in \<open>[0, 1)\<close>; for any other
  number the model reveals nothing.
\<close>

definition showNextStimulus :: "real \<Rightarrow> real \<Rightarrow> State \<Rightarrow> State" where
  "showNextStimulus now rnd s =
     (if now \<ge> testEndsAt s then s
      else case pickNextColor (lastColor s) rnd of
             None \<Rightarrow> s
           | Some c \<Rightarrow>
               (let a = length (heap s);
                    t = \<lparr>color = c, onset = now, respondedAt = None, rt = None, correct = False,
                         premature = flagPrematureForNext s, wrongKey = None, missed = None\<rparr>;
                    s1 = s\<lparr>lastColor := Some c, heap := heap s @ [t], currentTrial := Some a,
                           flagPrematureForNext := False, trials := trials s @ [a],
                           phase := stimulus_on\<rparr>
                in snd (setTimeout (DeadlineCb a) (MAX_RT_MS + 1) now s1)))"

text \<open>The callback armed by \<^verbatim>\<open>scheduleStimulusAfterLGate\<close>.\<close>

definition gateTimeout :: "real \<Rightarrow> real \<Rightarrow> State \<Rightarrow> State" where
  "gateTimeout now rnd s =
     (if lIsDown s \<and> phase s = awaiting_L \<and> now < testEndsAt s
      then showNextStimulus now rnd s else s)"

definition scheduleStimulusAfterLGate :: "real \<Rightarrow> State \<Rightarrow> State" where
  "scheduleStimulusAfterLGate now s =
     (if phase s \<noteq> awaiting_L then s
      else let s1 = (case lGateTimer s of
                       Some i \<Rightarrow> if i \<noteq> 0 then clearTimeout i s else s
                     | None \<Rightarrow> s);
               alreadyHeld = now - lDownAt s1;
               waitMs = max 1 (L_HOLD_MS - alreadyHeld);
               (i, s2) = setTimeout GateCb waitMs now s1
           in s2\<lparr>lGateTimer := Some i\<rparr>)"

text \<open>
  Keys are strings as \<^verbatim>\<open>e.key\<close> gives them; \<^verbatim>\<open>toUpperCase\<close> is modelled on ASCII.
\<close>

definition upper_char :: "char \<Rightarrow> char" where
  "upper_char c =
     (let n = (of_char c :: nat) in if 97 \<le> n \<and> n \<le> 122 then char_of (n - 32) else c)"

definition toUpperCase :: "string \<Rightarrow> string" where
  "toUpperCase k = map upper_char k"

text \<open>\<^verbatim>\<open>/^[A-Z]$/.test(key)\<close>\<close>

definition isLetter :: "string \<Rightarrow> bool" where
  "isLetter key =
     (case key of [c] \<Rightarrow> 65 \<le> (of_char c :: nat) \<and> (of_char c :: nat) \<le> 90 | _ \<Rightarrow> False)"

fun colorKey :: "Color \<Rightarrow> string" where
  "colorKey R = ''R''"
| "colorKey Y = ''Y''"
| "colorKey G = ''G''"

definition handleKeyDown :: "string \<Rightarrow> real \<Rightarrow> State \<Rightarrow> State" where
  "handleKeyDown k now s =
     (if \<not> hasFocus s then s
      else let key = toUpperCase k
      in if key = ''L'' then
           (if \<not> lIsDown s then
              (let s1 = s\<lparr>lIsDown := True, lDownAt := now\<rparr>
               in if phase s1 = awaiting_L \<and> now < testEndsAt s1
                  then scheduleStimulusAfterLGate now s1 else s1)
            else s)
         else if now - lastResponseAt s < KEY_DEBOUNCE_MS then s
         else if phase s = awaiting_L then
           (if key = ''R'' \<or> key = ''Y'' \<or> key = ''G''
            then s\<lparr>flagPrematureForNext := True\<rparr> else s)
         else if phase s = stimulus_on then
           (case currentTrial s of
              None \<Rightarrow> s
            | Some a \<Rightarrow>
                (let t = heap s ! a; expected = color t
                 in if isLetter key then
                      (let s1 = s\<lparr>lastResponseAt := now\<rparr>
                       in if falsy_time (respondedAt t) then
                            (let ok = (key = colorKey expected);
                                 t1 = t\<lparr>respondedAt := Some now, rt := Some (now - onset t),
                                        correct := ok\<rparr>;
                                 t2 = (if \<not> ok then t1\<lparr>wrongKey := Some key\<rparr> else t1)
                             in s1\<lparr>heap := (heap s1)[a := t2], phase := awaiting_L\<rparr>)
                          else s1)
                    else s))
         else s)"

definition handleKeyUp :: "string \<Rightarrow> real \<Rightarrow> State \<Rightarrow> State" where
  "handleKeyUp k now s =
     (let key = toUpperCase k
      in if key = ''L'' then
           (let s1 = (case lGateTimer s of
                        None \<Rightarrow> s
                      | Some i \<Rightarrow>
                          if i \<noteq> 0 then
                            (let held = now - lDownAt s
                             in if held < L_HOLD_MS
                                then (clearTimeout i s)\<lparr>lGateTimer := None\<rparr> else s)
                          else s)
            in s1\<lparr>lIsDown := False\<rparr>)
         else s)"

definition refreshTest :: "State \<Rightarrow> State" where
  "refreshTest s =
     (let s1 = clearTimer s;
          s2 = s1\<lparr>phase := idle, trials := [], currentTrial := None, lastColor := None,
                 lIsDown := False, lDownAt := 0\<rparr>
      in if truthy_handle (lGateTimer s2)
         then (case lGateTimer s2 of
                 Some i \<Rightarrow> (clearTimeout i s2)\<lparr>lGateTimer := None\<rparr>
               | None \<Rightarrow> s2)
         else s2)"

text \<open>
  What the environment can do to the component. A timer event names the handle, the
  clock value at which the callback runs and the random draw the callback may consume.
  The browser runs a callback only if its timer is still pending and its delay has
  elapsed; a timeout is removed when it fires, the interval stays and is due again 16 ms
  later.
\<close>

datatype Event =
    KeyDown string real
  | KeyUp string real
  | TimerFires nat real real
  | WindowFocus
  | WindowBlur
  | StartClicked real
  | RefreshClicked

definition fire :: "nat \<Rightarrow> real \<Rightarrow> real \<Rightarrow> State \<Rightarrow> State" where
  "fire i now rnd s =
     (case find (\<lambda>e. fst e = i) (timers s) of
        None \<Rightarrow> s
      | Some (_, due, cb) \<Rightarrow>
          if now < due then s
          else (case cb of
                  TickCb \<Rightarrow>
                    tick now (s\<lparr>timers := map (\<lambda>e. if fst e = i then (i, now + 16, TickCb) else e)
                                            (timers s)\<rparr>)
                | GateCb \<Rightarrow> gateTimeout now rnd (clearTimeout i s)
                | DeadlineCb a \<Rightarrow> deadlineTimeout a (clearTimeout i s)
                | EndCb \<Rightarrow> endTest (clearTimeout i s)))"

fun step :: "Event \<Rightarrow> State \<Rightarrow> State" where
  "step (KeyDown k now) s = handleKeyDown k now s"
| "step (KeyUp k now) s = handleKeyUp k now s"
| "step (TimerFires i now rnd) s = fire i now rnd s"
| "step WindowFocus s = s\<lparr>hasFocus := True\<rparr>"
| "step WindowBlur s = s\<lparr>hasFocus := False\<rparr>"
| "step (StartClicked now) s = startTest now s"
| "step RefreshClicked s = refreshTest s"

definition run :: "Event list \<Rightarrow> State \<Rightarrow> State" where
  "run es s = fold step es s"

section \<open>Notions used to state the properties\<close>

text \<open>The three outcomes a trial record falls into, as the loop of \<^verbatim>\<open>computeStats\<close> reads it.\<close>

definition isMiss :: "Trial \<Rightarrow> bool" where
  "isMiss t = (missed t = Some True \<or> respondedAt t = None)"

definition isCorrect :: "Trial \<Rightarrow> bool" where
  "isCorrect t = (missed t \<noteq> Some True \<and> respondedAt t \<noteq> None \<and> correct t)"

definition isWrong :: "Trial \<Rightarrow> bool" where
  "isWrong t = (missed t \<noteq> Some True \<and> respondedAt t \<noteq> None \<and> \<not> correct t)"

text \<open>
  The arithmetic mean and the order-statistic median of a non-empty sample, and rounding
  to one decimal place (ties going up), all three over the reals.
\<close>

definition mean :: "real list \<Rightarrow> real" where
  "mean xs = sum_list xs / real (length xs)"

definition order_median :: "real list \<Rightarrow> real" where
  "order_median xs =
     (let s = sort xs; n = length xs
      in if odd n then s ! (n div 2) else (s ! (n div 2 - 1) + s ! (n div 2)) / 2)"

definition round_tenth :: "real \<Rightarrow> real" where
  "round_tenth x = real_of_int \<lfloor>x * 10 + 1 / 2\<rfloor> / 10"

text \<open>
  The same mean and median in binary64: the sum is accumulated from the left, each
  partial sum rounded, and the quotient by the size is rounded; the median of an
  even-sized sample is the rounded half of the rounded sum of the two middle values.
\<close>

definition fsum64 :: "real \<Rightarrow> real list \<Rightarrow> real" where
  "fsum64 s xs = foldl (\<lambda>a b. fl (a + b)) s xs"

definition mean64 :: "real list \<Rightarrow> real" where
  "mean64 xs = fl (fsum64 0 xs / real (length xs))"

definition median64 :: "real list \<Rightarrow> real" where
  "median64 xs =
     (let s = sort xs; n = length xs
      in if odd n then s ! (n div 2) else fl (fl (s ! (n div 2 - 1) + s ! (n div 2)) / 2))"

text \<open>
  How far the binary64 mean of a sample can be from its arithmetic mean, and how far
  \<open>round1_num v\<close> can be from \<open>v\<close>: half a tenth, and the rounding errors of the product
  and of the quotient by 10.
\<close>

definition sum_slack :: "real list \<Rightarrow> real" where
  "sum_slack xs = real (length xs + 1) / 2 ^ 52 * mean (map abs xs)"

definition round1_slack :: "real \<Rightarrow> real" where
  "round1_slack v = 1 / 20 + (3 * \<bar>v\<bar> + 1) / 2 ^ 53"

text \<open>
  A sample as the program can hold it: fewer than \<open>2 ^ 32\<close> elements (the bound of an
  array's length), each a binary64 number that is zero or of a magnitude from
  \<open>1 / 2 ^ 500\<close> to \<open>2 ^ 500\<close>.
\<close>

definition double64 :: "real \<Rightarrow> bool" where
  "double64 x = (fl x = x \<and> (x = 0 \<or> (1 / 2 ^ 500 \<le> \<bar>x\<bar> \<and> \<bar>x\<bar> \<le> 2 ^ 500)))"

definition double_sample :: "real list \<Rightarrow> bool" where
  "double_sample xs = (length xs < 2 ^ 32 \<and> (\<forall>x \<in> set xs. double64 x))"

text \<open>
  The range on which \<open>fl\<close> is the rounding of binary64: zero, and the magnitudes from
  the least normal number \<open>1 / 2 ^ 1022\<close> to \<open>2 ^ 1023\<close>. \<open>normal_ops xs\<close> says that every
  exact result the engine rounds on the sample \<open>xs\<close> is in that range: the sum of each
  partial sum and the next element, the quotient of the sum by the size, the sum of
  the two middle values and the half of it, and, for the mean and for the median, the
  product by 10 and the quotient by 10 of the rounding to one decimal.
\<close>

definition normal64 :: "real \<Rightarrow> bool" where
  "normal64 r = (r = 0 \<or> (1 / 2 ^ 1022 \<le> \<bar>r\<bar> \<and> \<bar>r\<bar> \<le> 2 ^ 1023))"

definition normal_ops :: "real list \<Rightarrow> bool" where
  "normal_ops xs =
     ((\<forall>k < length xs. normal64 (fsum64 0 (take k xs) + xs ! k))
      \<and> normal64 (fsum64 0 xs / real (length xs))
      \<and> (even (length xs) \<longrightarrow>
            normal64 (sort xs ! (length xs div 2 - 1) + sort xs ! (length xs div 2))
          \<and> normal64 (fl (sort xs ! (length xs div 2 - 1) + sort xs ! (length xs div 2)) / 2))
      \<and> normal64 (mean64 xs * 10)
      \<and> normal64 (real_of_int \<lfloor>fl (mean64 xs * 10) + 1 / 2\<rfloor> / 10)
      \<and> normal64 (median64 xs * 10)
      \<and> normal64 (real_of_int \<lfloor>fl (median64 xs * 10) + 1 / 2\<rfloor> / 10))"

text \<open>The integer multiples of \<open>2 powi g\<close>.\<close>

definition on_grid :: "int \<Rightarrow> real \<Rightarrow> bool" where
  "on_grid g x = (\<exists>k::int. x = real_of_int k * 2 powi g)"

text \<open>The spacing of the binary64 numbers around \<open>x\<close>.\<close>

definition quantum :: "real \<Rightarrow> real" where
  "quantum x = 2 powi (expo x - 52)"

text \<open>A correct response with latency \<open>x\<close>, for concrete logs.\<close>

definition answered :: "Color \<Rightarrow> real \<Rightarrow> Trial" where
  "answered c x = \<lparr>color = c, onset = 0, respondedAt = Some x, rt = Some x, correct = True,
     premature = False, wrongKey = None, missed = None\<rparr>"

text \<open>
  Four latencies that are not multiples of a tenth: the binary64 numbers written
  \<^verbatim>\<open>102.44999999999999\<close> (the difference \<^verbatim>\<open>312.45 - 210\<close>), \<^verbatim>\<open>4010.3499999999995\<close>,
  \<^verbatim>\<open>310.04\<close> and \<^verbatim>\<open>250.26\<close>, as fractions with a power of two below.
\<close>

definition lat_102_45 :: real where
  "lat_102_45 = 1802319460250419 / 17592186044416"

definition lat_4010_35 :: real where
  "lat_4010_35 = 4409426456451481 / 1099511627776"

definition lat_310_04 :: real where
  "lat_310_04 = 5454281361210737 / 17592186044416"

definition lat_250_26 :: real where
  "lat_250_26 = 1100655119868887 / 4398046511104"

text \<open>
  A log with three equal latencies in one category and two distinct ones in another,
  a wrong key and a miss; and a record that carries a response time stamp and no
  latency.
\<close>

definition floatLog :: "Trial list" where
  "floatLog = [answered R lat_4010_35, answered Y lat_250_26, answered R lat_4010_35,
     answered Y lat_310_04, answered R lat_4010_35,
     \<lparr>color = G, onset = 0, respondedAt = Some 150, rt = Some 150, correct = False,
      premature = False, wrongKey = Some ''R'', missed = None\<rparr>,
     \<lparr>color = G, onset = 0, respondedAt = None, rt = None, correct = False,
      premature = True, wrongKey = None, missed = Some True\<rparr>]"

definition noRtTrial :: Trial where
  "noRtTrial = \<lparr>color = R, onset = 0, respondedAt = Some 300, rt = None, correct = True,
     premature = False, wrongKey = None, missed = None\<rparr>"

text \<open>A record flagged as missed that also carries a response, and a small mixed log.\<close>

definition missedTrial :: Trial where
  "missedTrial = \<lparr>color = Y, onset = 0, respondedAt = Some 120, rt = Some 120, correct = True,
     premature = True, wrongKey = Some ''R'', missed = Some True\<rparr>"

definition sampleLog :: "Trial list" where
  "sampleLog = [answered R 300, answered Y 200,
     \<lparr>color = G, onset = 0, respondedAt = Some 150, rt = Some 150, correct = False,
      premature = False, wrongKey = Some ''R'', missed = None\<rparr>,
     \<lparr>color = G, onset = 0, respondedAt = None, rt = None, correct = False,
      premature = True, wrongKey = None, missed = Some True\<rparr>]"

text \<open>
  A stand-in for the platform's JSON functions on a handful of texts, for concrete stores.
\<close>

definition demo_parse :: "string \<Rightarrow> nat parsed option" where
  "demo_parse raw =
     (if raw = ''[1,2,3,4,5,6]'' then Some (JArray [1, 2, 3, 4, 5, 6])
      else if raw = ''[7,1,2,3,4]'' then Some (JArray [7, 1, 2, 3, 4])
      else if raw = ''{}'' then Some JOther
      else None)"

definition demo_stringify :: "nat list \<Rightarrow> string" where
  "demo_stringify arr = (if arr = [7, 1, 2, 3, 4] then ''[7,1,2,3,4]'' else ''?'')"

section \<open>Events of the gate key and invariants of the state machine\<close>









text \<open>
  In every reachable state the trial \<^verbatim>\<open>currentTrial\<close> refers to exists, and while its
  stimulus is on it carries no response.
\<close>

definition trial_inv :: "State \<Rightarrow> bool" where
  "trial_inv s =
     ((case currentTrial s of None \<Rightarrow> phase s \<noteq> stimulus_on
       | Some a \<Rightarrow> a < length (heap s) \<and> (phase s = stimulus_on \<longrightarrow> respondedAt (heap s ! a) = None)))"

text \<open>
  In every reachable state a previous category is recorded exactly when the trial log of
  the session is not empty, and the log is empty while the phase is \<open>idle\<close>.
\<close>

definition session_inv :: "State \<Rightarrow> bool" where
  "session_inv s = ((lastColor s = None \<longleftrightarrow> trials s = []) \<and> (phase s = idle \<longrightarrow> trials s = []))"






section \<open>Powers of two and the binary exponent\<close>

lemma pow2_pos: "0 < (2::real) powi e"
  by (simp add: power_int_def)

lemma pow2_add: "(2::real) powi (a + b) = 2 powi a * 2 powi b"
  by (simp add: power_int_add)

lemma pow2_Suc: "(2::real) powi (e + 1) = 2 * 2 powi e"
  by (simp add: power_int_add)

lemma pow2_mono: "a \<le> b \<Longrightarrow> (2::real) powi a \<le> 2 powi b"
  by (rule power_int_increasing) simp_all

lemma pow2_less_imp: "(2::real) powi a < 2 powi b \<Longrightarrow> a < b"
  using pow2_mono [of b a] by (cases "a < b") simp_all

lemma pow2_nat: "(2::real) powi (int k) = 2 ^ k"
  by (simp add: power_int_def)

lemma pow2_neg_nat: "(2::real) powi (- int k) = 1 / 2 ^ k"
  by (simp add: power_int_minus pow2_nat inverse_eq_divide)

lemma expo_bounds:
  assumes "x \<noteq> 0"
  shows "2 powi (expo x) \<le> \<bar>x\<bar>" and "\<bar>x\<bar> < 2 powi (expo x + 1)"
proof -
  have "2 powi (expo x) \<le> \<bar>x\<bar> \<and> \<bar>x\<bar> < 2 powi (expo x + 1)"
  proof (cases "1 \<le> \<bar>x\<bar>")
    case True
    define n where "n = nat \<lfloor>\<bar>x\<bar>\<rfloor>"
    define k where "k = floorlog 2 n"
    have m: "1 \<le> \<lfloor>\<bar>x\<bar>\<rfloor>" using True by linarith
    then have rn: "real n = real_of_int \<lfloor>\<bar>x\<bar>\<rfloor>" unfolding n_def by simp
    have n: "0 < n" "real n \<le> \<bar>x\<bar>" "\<bar>x\<bar> < real n + 1"
    proof -
      show "0 < n" using m unfolding n_def by simp
      show "real n \<le> \<bar>x\<bar>" unfolding rn by linarith
      show "\<bar>x\<bar> < real n + 1" unfolding rn by linarith
    qed
    have b: "2 ^ (k - 1) \<le> n" "n < 2 ^ k"
      using floorlog_bounds [of n 2] n(1) unfolding k_def by simp_all
    have k: "0 < k" using b(2) n(1) by (cases k) simp_all
    have e: "expo x = int k - 1" using True by (simp add: expo_def bitlen_def n_def k_def)
    have e1: "expo x = int (k - 1)" using e k by simp
    have "(2::real) ^ (k - 1) \<le> real n" using b(1) by (metis of_nat_le_iff of_nat_numeral of_nat_power)
    then have lo: "2 powi (expo x) \<le> \<bar>x\<bar>" unfolding e1 pow2_nat using n(2) by linarith
    have "real n + 1 \<le> 2 ^ k" using b(2)
      by (metis Suc_leI of_nat_Suc of_nat_le_iff of_nat_numeral of_nat_power add.commute)
    then have "\<bar>x\<bar> < 2 ^ k" using n(3) by linarith
    moreover have "expo x + 1 = int k" using e by simp
    ultimately have "\<bar>x\<bar> < 2 powi (expo x + 1)" by (simp add: pow2_nat)
    with lo show ?thesis by simp
  next
    case False
    define y where "y = 1 / \<bar>x\<bar>"
    define c where "c = nat (\<lceil>y\<rceil> - 1)"
    define k where "k = floorlog 2 c"
    have x: "0 < \<bar>x\<bar>" "\<bar>x\<bar> < 1" using assms False by simp_all
    have y: "1 < y" unfolding y_def using x by simp
    have cy: "2 \<le> \<lceil>y\<rceil>" using y by linarith
    have rc: "real c = real_of_int (\<lceil>y\<rceil> - 1)" using cy unfolding c_def by simp
    have c: "0 < c" "real c < y" "y \<le> real c + 1"
    proof -
      show "0 < c" using cy unfolding c_def by simp
      show "real c < y" unfolding rc by linarith
      show "y \<le> real c + 1" unfolding rc by linarith
    qed
    have b: "2 ^ (k - 1) \<le> c" "c < 2 ^ k"
      using floorlog_bounds [of c 2] c(1) unfolding k_def by simp_all
    have k: "0 < k" using b(2) c(1) by (cases k) simp_all
    have e: "expo x = - int k" using False by (simp add: expo_def bitlen_def y_def c_def k_def)
    have "real c + 1 \<le> 2 ^ k" using b(2)
      by (metis Suc_leI of_nat_Suc of_nat_le_iff of_nat_numeral of_nat_power add.commute)
    then have yk: "y \<le> 2 ^ k" using c(3) by linarith
    have "1 / 2 ^ k \<le> 1 / y" using yk y by (simp add: frac_le)
    then have lo: "2 powi (expo x) \<le> \<bar>x\<bar>" unfolding e pow2_neg_nat y_def by simp
    have "(2::real) ^ (k - 1) \<le> real c" using b(1) by (metis of_nat_le_iff of_nat_numeral of_nat_power)
    then have "(2::real) ^ (k - 1) < y" using c(2) by linarith
    then have "1 / y < 1 / 2 ^ (k - 1)" by (simp add: frac_less2)
    moreover have "expo x + 1 = - int (k - 1)" using e k by simp
    ultimately have "\<bar>x\<bar> < 2 powi (expo x + 1)"
      using pow2_neg_nat [of "k - 1"] unfolding y_def by simp
    with lo show ?thesis by simp
  qed
  then show "2 powi (expo x) \<le> \<bar>x\<bar>" and "\<bar>x\<bar> < 2 powi (expo x + 1)" by simp_all
qed

lemma expo_unique:
  assumes "2 powi e \<le> \<bar>x\<bar>" "\<bar>x\<bar> < 2 powi (e + 1)"
  shows "expo x = e"
proof -
  have nz: "x \<noteq> 0"
  proof
    assume "x = 0"
    then have "2 powi e \<le> (0::real)" using assms(1) by simp
    then show False using pow2_pos [of e] by linarith
  qed
  note b = expo_bounds [OF nz]
  have "2 powi e < (2::real) powi (expo x + 1)" using assms(1) b(2) by simp
  then have 1: "e < expo x + 1" by (rule pow2_less_imp)
  have "2 powi (expo x) < (2::real) powi (e + 1)" using assms(2) b(1) by simp
  then have 2: "expo x < e + 1" by (rule pow2_less_imp)
  from 1 2 show ?thesis by simp
qed

lemma expo_minus: "expo (- x) = expo x"
  by (simp add: expo_def bitlen_def)

lemma expo_twice: "x \<noteq> 0 \<Longrightarrow> expo (2 * x) = expo x + 1"
proof (rule expo_unique)
  assume nz: "x \<noteq> 0"
  note b = expo_bounds [OF nz]
  show "2 powi (expo x + 1) \<le> \<bar>2 * x\<bar>" using b(1) by (simp add: pow2_Suc abs_mult)
  have "(2::real) powi (expo x + 1 + 1) = 2 * (2 * 2 powi expo x)" by (simp only: pow2_Suc)
  then show "\<bar>2 * x\<bar> < 2 powi (expo x + 1 + 1)" using b(2) by (simp add: pow2_Suc abs_mult)
qed

lemma expo_mono_pos:
  assumes "0 < x" "x \<le> y"
  shows "expo x \<le> expo y"
proof -
  have "2 powi (expo x) \<le> \<bar>x\<bar>" "\<bar>y\<bar> < 2 powi (expo y + 1)"
    using expo_bounds [of x] expo_bounds [of y] assms by simp_all
  then have "(2::real) powi (expo x) < 2 powi (expo y + 1)" using assms by simp
  then have "expo x < expo y + 1" by (rule pow2_less_imp)
  then show ?thesis by simp
qed

section \<open>Rounding to the nearest integer, ties to even\<close>

lemma round_even_cases:
  "round_even y = \<lfloor>y\<rfloor> \<or> round_even y = \<lfloor>y\<rfloor> + 1"
  by (simp add: round_even_def Let_def)

lemma round_even_close: "\<bar>real_of_int (round_even y) - y\<bar> \<le> 1 / 2"
proof -
  have f: "real_of_int \<lfloor>y\<rfloor> \<le> y" "y < real_of_int \<lfloor>y\<rfloor> + 1" by linarith+
  show ?thesis
  proof (cases "y - real_of_int \<lfloor>y\<rfloor> < 1 / 2")
    case True
    then have "round_even y = \<lfloor>y\<rfloor>" by (simp add: round_even_def Let_def)
    then show ?thesis using True f by simp
  next
    case False
    show ?thesis
    proof (cases "1 / 2 < y - real_of_int \<lfloor>y\<rfloor>")
      case True
      then have "round_even y = \<lfloor>y\<rfloor> + 1" using False by (simp add: round_even_def Let_def)
      then show ?thesis using True f by simp
    next
      case F2: False
      then have h: "y - real_of_int \<lfloor>y\<rfloor> = 1 / 2" using False by simp
      from round_even_cases [of y] show ?thesis
      proof
        assume "round_even y = \<lfloor>y\<rfloor>"
        then show ?thesis using h by simp
      next
        assume "round_even y = \<lfloor>y\<rfloor> + 1"
        then show ?thesis using h by simp
      qed
    qed
  qed
qed

lemma round_even_int: "round_even (real_of_int m) = m"
  by (simp add: round_even_def Let_def)

lemma round_even_ge: "real_of_int m \<le> y \<Longrightarrow> m \<le> round_even y"
proof -
  assume "real_of_int m \<le> y"
  then have "m \<le> \<lfloor>y\<rfloor>" by (simp add: le_floor_iff)
  then show ?thesis using round_even_cases [of y] by auto
qed

lemma round_even_le: "y \<le> real_of_int m \<Longrightarrow> round_even y \<le> m"
proof (cases "y = real_of_int m")
  case True
  then show ?thesis by (simp add: round_even_int)
next
  case False
  assume "y \<le> real_of_int m"
  then have "y < real_of_int m" using False by simp
  then have "\<lfloor>y\<rfloor> < m" by (simp add: floor_less_iff)
  then show ?thesis using round_even_cases [of y] by auto
qed

lemma round_even_mono:
  assumes "y \<le> z"
  shows "round_even y \<le> round_even z"
proof (cases "\<lfloor>y\<rfloor> = \<lfloor>z\<rfloor>")
  case False
  have "\<lfloor>y\<rfloor> \<le> \<lfloor>z\<rfloor>" using assms by (rule floor_mono)
  then have "\<lfloor>y\<rfloor> + 1 \<le> \<lfloor>z\<rfloor>" using False by simp
  then show ?thesis using round_even_cases [of y] round_even_cases [of z] by auto
next
  case True
  have d: "y - real_of_int \<lfloor>y\<rfloor> \<le> z - real_of_int \<lfloor>y\<rfloor>" using assms by simp
  show ?thesis
  proof (cases "round_even y = \<lfloor>y\<rfloor>")
    case True
    then show ?thesis using round_even_cases [of z] \<open>\<lfloor>y\<rfloor> = \<lfloor>z\<rfloor>\<close> by auto
  next
    case False
    then have up: "round_even y = \<lfloor>y\<rfloor> + 1" using round_even_cases [of y] by simp
    have "round_even z = \<lfloor>z\<rfloor> + 1"
    proof (cases "1 / 2 < y - real_of_int \<lfloor>y\<rfloor>")
      case True
      then have "1 / 2 < z - real_of_int \<lfloor>z\<rfloor>" using d \<open>\<lfloor>y\<rfloor> = \<lfloor>z\<rfloor>\<close> by simp
      then show ?thesis by (simp add: round_even_def Let_def)
    next
      case F: False
      have ny: "\<not> y - real_of_int \<lfloor>y\<rfloor> < 1 / 2"
        using False by (auto simp: round_even_def Let_def)
      then have hy: "y - real_of_int \<lfloor>y\<rfloor> = 1 / 2" using F by simp
      then have odd: "odd \<lfloor>y\<rfloor>" using False by (auto simp: round_even_def Let_def)
      have "\<not> z - real_of_int \<lfloor>z\<rfloor> < 1 / 2" using d hy \<open>\<lfloor>y\<rfloor> = \<lfloor>z\<rfloor>\<close> by simp
      then show ?thesis using odd \<open>\<lfloor>y\<rfloor> = \<lfloor>z\<rfloor>\<close> by (simp add: round_even_def Let_def)
    qed
    then show ?thesis using up \<open>\<lfloor>y\<rfloor> = \<lfloor>z\<rfloor>\<close> by simp
  qed
qed

lemma round_even_minus: "round_even (- y) = - round_even y"
proof (cases "y = real_of_int \<lfloor>y\<rfloor>")
  case True
  then obtain m where "y = real_of_int m" by (rule that)
  then have "round_even y = m" "round_even (- y) = - m"
    using round_even_int [of m] round_even_int [of "- m"] by simp_all
  then show ?thesis by simp
next
  case False
  moreover have "real_of_int \<lfloor>y\<rfloor> \<le> y" by linarith
  ultimately have lt: "real_of_int \<lfloor>y\<rfloor> < y" by linarith
  have fm: "\<lfloor>- y\<rfloor> = - \<lfloor>y\<rfloor> - 1"
    using lt by (intro floor_unique) (simp_all, linarith+)
  have dm: "- y - real_of_int \<lfloor>- y\<rfloor> = 1 - (y - real_of_int \<lfloor>y\<rfloor>)" unfolding fm by simp
  show ?thesis
  proof (cases "y - real_of_int \<lfloor>y\<rfloor> < 1 / 2")
    case True
    then have "round_even y = \<lfloor>y\<rfloor>" by (simp add: round_even_def Let_def)
    moreover have "round_even (- y) = \<lfloor>- y\<rfloor> + 1"
      using True dm by (simp add: round_even_def Let_def)
    ultimately show ?thesis using fm by simp
  next
    case nlt: False
    show ?thesis
    proof (cases "1 / 2 < y - real_of_int \<lfloor>y\<rfloor>")
      case True
      then have "round_even y = \<lfloor>y\<rfloor> + 1" using nlt by (simp add: round_even_def Let_def)
      moreover have "round_even (- y) = \<lfloor>- y\<rfloor>"
        using True dm by (simp add: round_even_def Let_def)
      ultimately show ?thesis using fm by simp
    next
      case False
      then have h: "y - real_of_int \<lfloor>y\<rfloor> = 1 / 2" using nlt by simp
      then have h': "- y - real_of_int \<lfloor>- y\<rfloor> = 1 / 2" using dm by simp
      have a: "round_even y = (if even \<lfloor>y\<rfloor> then \<lfloor>y\<rfloor> else \<lfloor>y\<rfloor> + 1)"
        using h by (simp add: round_even_def Let_def)
      have b: "round_even (- y) = (if even \<lfloor>- y\<rfloor> then \<lfloor>- y\<rfloor> else \<lfloor>- y\<rfloor> + 1)"
        using h' by (simp add: round_even_def Let_def)
      show ?thesis unfolding a b fm by auto
    qed
  qed
qed

section \<open>Rounding to binary64\<close>

lemma quantum_pos: "0 < quantum x"
  by (simp add: quantum_def pow2_pos)

lemma fl_quantum:
  "x \<noteq> 0 \<Longrightarrow> fl x = real_of_int (round_even (x / quantum x)) * quantum x"
  by (simp add: fl_def quantum_def)

lemma quantum_expo: "quantum x * 2 ^ 52 = 2 powi (expo x)"
proof -
  have "2 powi (expo x) = (2::real) powi ((expo x - 52) + int 52)" by simp
  also have "\<dots> = 2 powi (expo x - 52) * 2 powi (int 52)" by (rule pow2_add)
  also have "\<dots> = quantum x * 2 ^ 52" unfolding pow2_nat quantum_def ..
  finally show ?thesis by simp
qed

lemma quantum_expo1: "quantum x * 2 ^ 53 = 2 powi (expo x + 1)"
proof -
  have "quantum x * 2 ^ 53 = 2 * (quantum x * 2 ^ 52)" by simp
  then show ?thesis unfolding quantum_expo pow2_Suc .
qed

lemma fl_zero: "fl 0 = 0"
  by (simp add: fl_def)

lemma fl_minus: "fl (- x) = - fl x"
proof (cases "x = 0")
  case True
  then show ?thesis by (simp add: fl_zero)
next
  case False
  have "round_even (- x / 2 powi (expo x - 52)) = - round_even (x / 2 powi (expo x - 52))"
    using round_even_minus [of "x / 2 powi (expo x - 52)"] by simp
  then show ?thesis using False by (simp add: fl_def expo_minus)
qed

lemma fl_error_quantum:
  assumes "x \<noteq> 0"
  shows "\<bar>fl x - x\<bar> \<le> quantum x / 2"
proof -
  define q where "q = quantum x"
  define k where "k = round_even (x / q)"
  have q: "0 < q" unfolding q_def by (rule quantum_pos)
  have "\<bar>real_of_int k - x / q\<bar> \<le> 1 / 2" unfolding k_def by (rule round_even_close)
  then have "\<bar>real_of_int k - x / q\<bar> * q \<le> 1 / 2 * q"
    using q by (intro mult_right_mono) simp_all
  moreover have "\<bar>real_of_int k - x / q\<bar> * q = \<bar>real_of_int k * q - x\<bar>"
  proof -
    have "\<bar>real_of_int k - x / q\<bar> * q = \<bar>(real_of_int k - x / q) * q\<bar>"
      using q by (simp add: abs_mult)
    also have "(real_of_int k - x / q) * q = real_of_int k * q - x"
      using q by (simp add: algebra_simps)
    finally show ?thesis .
  qed
  moreover have "fl x = real_of_int k * q"
    unfolding k_def q_def by (rule fl_quantum [OF assms])
  ultimately show ?thesis unfolding q_def by simp
qed

lemma fl_error: "\<bar>fl x - x\<bar> \<le> \<bar>x\<bar> / 2 ^ 53"
proof (cases "x = 0")
  case True
  then show ?thesis by (simp add: fl_zero)
next
  case False
  have "quantum x * 2 ^ 52 \<le> \<bar>x\<bar>"
    unfolding quantum_expo by (rule expo_bounds(1) [OF False])
  then have "quantum x / 2 \<le> \<bar>x\<bar> / 2 ^ 53" by (simp add: field_simps)
  then show ?thesis using fl_error_quantum [OF False] by linarith
qed

lemma fl_pos_bounds:
  assumes "0 < x"
  shows "2 powi (expo x) \<le> fl x" and "fl x \<le> 2 powi (expo x + 1)"
proof -
  define q where "q = quantum x"
  have q: "0 < q" unfolding q_def by (rule quantum_pos)
  have nz: "x \<noteq> 0" using assms by simp
  have f: "fl x = real_of_int (round_even (x / q)) * q"
    unfolding q_def by (rule fl_quantum [OF nz])
  have lo: "q * 2 ^ 52 \<le> x"
    using expo_bounds(1) [OF nz] assms unfolding q_def quantum_expo by simp
  have hi: "x \<le> q * 2 ^ 53"
    using expo_bounds(2) [OF nz] assms unfolding q_def quantum_expo1 by simp
  have "real_of_int (2 ^ 52) \<le> x / q" using lo q by (simp add: field_simps)
  then have "2 ^ 52 \<le> round_even (x / q)" by (rule round_even_ge)
  then have "real_of_int (2 ^ 52) \<le> real_of_int (round_even (x / q))"
    by (simp only: of_int_le_iff)
  then have "real_of_int (2 ^ 52) * q \<le> real_of_int (round_even (x / q)) * q"
    using q by (intro mult_right_mono) simp_all
  then show "2 powi (expo x) \<le> fl x"
    unfolding f using quantum_expo [of x] by (simp add: q_def mult.commute)
  have "x / q \<le> real_of_int (2 ^ 53)" using hi q by (simp add: field_simps)
  then have "round_even (x / q) \<le> 2 ^ 53" by (rule round_even_le)
  then have "real_of_int (round_even (x / q)) \<le> real_of_int (2 ^ 53)"
    by (simp only: of_int_le_iff)
  then have "real_of_int (round_even (x / q)) * q \<le> real_of_int (2 ^ 53) * q"
    using q by (intro mult_right_mono) simp_all
  then show "fl x \<le> 2 powi (expo x + 1)"
    unfolding f using quantum_expo1 [of x] by (simp add: q_def mult.commute)
qed

lemma fl_nonneg: "0 \<le> x \<Longrightarrow> 0 \<le> fl x"
proof (cases "x = 0")
  case True
  then show ?thesis by (simp add: fl_zero)
next
  case False
  assume "0 \<le> x"
  then have "0 < x" using False by simp
  then have "2 powi (expo x) \<le> fl x" by (rule fl_pos_bounds(1))
  then show ?thesis using pow2_pos [of "expo x"] by linarith
qed

lemma fl_nonpos: "x \<le> 0 \<Longrightarrow> fl x \<le> 0"
  using fl_nonneg [of "- x"] by (simp add: fl_minus)

lemma fl_mono_pos:
  assumes "0 < x" and "x \<le> y"
  shows "fl x \<le> fl y"
proof -
  have y: "0 < y" using assms by simp
  have le: "expo x \<le> expo y" using assms by (rule expo_mono_pos)
  show ?thesis
  proof (cases "expo x = expo y")
    case True
    then have q: "quantum x = quantum y" by (simp add: quantum_def)
    have "x / quantum y \<le> y / quantum y"
      using assms(2) quantum_pos [of y] by (simp add: divide_right_mono)
    then have "round_even (x / quantum y) \<le> round_even (y / quantum y)"
      by (rule round_even_mono)
    then have "real_of_int (round_even (x / quantum y)) * quantum y
        \<le> real_of_int (round_even (y / quantum y)) * quantum y"
      using quantum_pos [of y] by (intro mult_right_mono) simp_all
    then show ?thesis
      using fl_quantum [of x] fl_quantum [of y] assms y q by simp
  next
    case False
    then have "expo x + 1 \<le> expo y" using le by simp
    then have "(2::real) powi (expo x + 1) \<le> 2 powi (expo y)" by (rule pow2_mono)
    then show ?thesis
      using fl_pos_bounds(2) [OF assms(1)] fl_pos_bounds(1) [OF y] by linarith
  qed
qed

lemma fl_mono:
  assumes "x \<le> y"
  shows "fl x \<le> fl y"
proof (cases "0 < x")
  case True
  then show ?thesis using assms by (rule fl_mono_pos)
next
  case nx: False
  show ?thesis
  proof (cases "0 \<le> y")
    case True
    have "fl x \<le> 0" using nx by (intro fl_nonpos) simp
    then show ?thesis using fl_nonneg [OF True] by linarith
  next
    case False
    then have "0 < - y" "- y \<le> - x" using assms by simp_all
    then have "fl (- y) \<le> fl (- x)" by (rule fl_mono_pos)
    then show ?thesis by (simp add: fl_minus)
  qed
qed

lemma fl_twice: "fl (2 * x) = 2 * fl x"
proof (cases "x = 0")
  case True
  then show ?thesis by (simp add: fl_zero)
next
  case False
  have q: "quantum (2 * x) = 2 * quantum x"
    unfolding quantum_def expo_twice [OF False]
    using pow2_Suc [of "expo x - 52"] by (simp add: algebra_simps)
  have "2 * x / quantum (2 * x) = x / quantum x" unfolding q by simp
  then show ?thesis
    using False fl_quantum [of x] fl_quantum [of "2 * x"] q by simp
qed

lemma fl_half: "fl (x / 2) = fl x / 2"
  using fl_twice [of "x / 2"] by simp

lemma fl_abs_le: "\<bar>fl x\<bar> \<le> (1 + 1 / 2 ^ 53) * \<bar>x\<bar>"
proof -
  have "\<bar>fl x\<bar> \<le> \<bar>x\<bar> + \<bar>fl x - x\<bar>" by linarith
  then have "\<bar>fl x\<bar> \<le> \<bar>x\<bar> + \<bar>x\<bar> / 2 ^ 53" using fl_error [of x] by linarith
  then show ?thesis by (simp add: algebra_simps)
qed

lemma fl_round_bounds:
  assumes "0 < x"
  shows "2 ^ 52 \<le> round_even (x / quantum x)" and "round_even (x / quantum x) \<le> 2 ^ 53"
proof -
  define q where "q = quantum x"
  have q: "0 < q" unfolding q_def by (rule quantum_pos)
  have nz: "x \<noteq> 0" using assms by simp
  have lo: "q * 2 ^ 52 \<le> x"
    using expo_bounds(1) [OF nz] assms unfolding q_def quantum_expo by simp
  have hi: "x \<le> q * 2 ^ 53"
    using expo_bounds(2) [OF nz] assms unfolding q_def quantum_expo1 by simp
  have "real_of_int (2 ^ 52) \<le> x / q" using lo q by (simp add: field_simps)
  then show "2 ^ 52 \<le> round_even (x / quantum x)" unfolding q_def by (rule round_even_ge)
  have "x / q \<le> real_of_int (2 ^ 53)" using hi q by (simp add: field_simps)
  then show "round_even (x / quantum x) \<le> 2 ^ 53" unfolding q_def by (rule round_even_le)
qed

lemma fl_idem_pos:
  assumes "0 < x"
  shows "fl (fl x) = fl x"
proof -
  define q where "q = quantum x"
  define k where "k = round_even (x / q)"
  have q: "0 < q" unfolding q_def by (rule quantum_pos)
  have nz: "x \<noteq> 0" using assms by simp
  have f: "fl x = real_of_int k * q" unfolding k_def q_def by (rule fl_quantum [OF nz])
  have k: "2 ^ 52 \<le> k" "k \<le> 2 ^ 53"
    using fl_round_bounds [OF assms] unfolding k_def q_def by simp_all
  have kr: "(2::real) ^ 52 \<le> real_of_int k" "real_of_int k \<le> 2 ^ 53"
  proof -
    have "real_of_int (2 ^ 52) \<le> real_of_int k" using k(1) by (simp only: of_int_le_iff)
    then show "(2::real) ^ 52 \<le> real_of_int k" by simp
    have "real_of_int k \<le> real_of_int (2 ^ 53)" using k(2) by (simp only: of_int_le_iff)
    then show "real_of_int k \<le> 2 ^ 53" by simp
  qed
  have zpos: "0 < fl x"
  proof -
    have "(0::real) < 2 ^ 52" by simp
    then have "0 < real_of_int k" using kr(1) by linarith
    then show ?thesis unfolding f using q by simp
  qed
  have znz: "fl x \<noteq> 0" using zpos by simp
  show ?thesis
  proof (cases "k = 2 ^ 53")
    case False
    then have "k < 2 ^ 53" using k(2) by simp
    then have "real_of_int k < real_of_int (2 ^ 53)" by (simp only: of_int_less_iff)
    then have klt: "real_of_int k < 2 ^ 53" by simp
    have "2 ^ 52 * q \<le> real_of_int k * q" using kr(1) q by (intro mult_right_mono) simp_all
    then have lo: "2 powi (expo x) \<le> \<bar>fl x\<bar>"
      using quantum_expo [of x] zpos unfolding f q_def by (simp add: mult.commute)
    have "real_of_int k * q < 2 ^ 53 * q" using klt q by (intro mult_strict_right_mono)
    then have hi: "\<bar>fl x\<bar> < 2 powi (expo x + 1)"
      using quantum_expo1 [of x] zpos unfolding f q_def by (simp add: mult.commute)
    have e: "expo (fl x) = expo x" using lo hi by (rule expo_unique)
    then have qq: "quantum (fl x) = q" by (simp add: quantum_def q_def)
    have "fl x / q = real_of_int k" unfolding f using q by simp
    then have r: "round_even (fl x / q) = k" by (simp only: round_even_int)
    have "fl (fl x) = real_of_int (round_even (fl x / quantum (fl x))) * quantum (fl x)"
      by (rule fl_quantum [OF znz])
    also have "\<dots> = real_of_int k * q" by (simp only: qq r)
    finally show ?thesis using f by simp
  next
    case True
    have z: "fl x = 2 powi (expo x + 1)"
      unfolding f True using quantum_expo1 [of x] by (simp add: q_def mult.commute)
    have lo: "2 powi (expo x + 1) \<le> \<bar>fl x\<bar>" unfolding z by simp
    have "(2::real) powi (expo x + 1) < 2 * 2 powi (expo x + 1)"
      using pow2_pos [of "expo x + 1"] by simp
    then have hi: "\<bar>fl x\<bar> < 2 powi (expo x + 1 + 1)"
      unfolding z pow2_Suc [of "expo x + 1"] using pow2_pos [of "expo x + 1"] by simp
    have e: "expo (fl x) = expo x + 1" using lo hi by (rule expo_unique)
    have qq: "quantum (fl x) = 2 * q"
      unfolding quantum_def e q_def using pow2_Suc [of "expo x - 52"] by (simp add: algebra_simps)
    have "fl x / (2 * q) = real_of_int (2 ^ 52)" unfolding f True using q by simp
    then have r: "round_even (fl x / (2 * q)) = 2 ^ 52" by (simp only: round_even_int)
    have "fl (fl x) = real_of_int (round_even (fl x / quantum (fl x))) * quantum (fl x)"
      by (rule fl_quantum [OF znz])
    also have "\<dots> = real_of_int (2 ^ 52) * (2 * q)" by (simp only: qq r)
    also have "\<dots> = real_of_int (2 ^ 53) * q" by simp
    finally show ?thesis using f True by simp
  qed
qed

lemma fl_idem: "fl (fl x) = fl x"
proof (cases "0 < x")
  case True
  then show ?thesis by (rule fl_idem_pos)
next
  case False
  show ?thesis
  proof (cases "x = 0")
    case True
    then show ?thesis by (simp add: fl_zero)
  next
    case nz: False
    then have "0 < - x" using False by simp
    then have "fl (fl (- x)) = fl (- x)" by (rule fl_idem_pos)
    then show ?thesis by (simp add: fl_minus)
  qed
qed


section \<open>Rounding errors of the sum, the mean and the median\<close>

lemma pow_bound:
  fixes u :: real
  assumes "0 \<le> u"
  shows "real m * u \<le> 1 / 2 \<Longrightarrow> (1 + u) ^ m \<le> 1 + 2 * real m * u"
proof (induction m)
  case 0
  show ?case by simp
next
  case (Suc m)
  have mu: "real m * u \<le> 1 / 2" using Suc.prems assms by (simp add: algebra_simps)
  have ih: "(1 + u) ^ m \<le> 1 + 2 * real m * u" using Suc.IH mu by simp
  have "(1 + u) * (1 + u) ^ m \<le> (1 + u) * (1 + 2 * real m * u)"
    using ih assms by (intro mult_left_mono) simp_all
  moreover have "(1 + u) * (1 + 2 * real m * u) = 1 + 2 * real m * u + u + (2 * (real m * u)) * u"
    by (simp add: algebra_simps)
  moreover have "(2 * (real m * u)) * u \<le> 1 * u"
    using mu assms by (intro mult_right_mono) simp_all
  ultimately have "(1 + u) * (1 + u) ^ m \<le> 1 + 2 * real m * u + u + u" by linarith
  then show ?case by (simp add: algebra_simps)
qed

lemma pow_ge_one:
  fixes u :: real
  shows "0 \<le> u \<Longrightarrow> 1 \<le> (1 + u) ^ m"
  by (rule one_le_power) simp

lemma sum_abs_nonneg: "0 \<le> sum_list (map abs (xs :: real list))"
  by (induction xs) simp_all

lemma sum_abs_ge: "\<bar>sum_list (xs :: real list)\<bar> \<le> sum_list (map abs xs)"
proof (induction xs)
  case Nil
  show ?case by simp
next
  case (Cons x xs)
  have "\<bar>x + sum_list xs\<bar> \<le> \<bar>x\<bar> + \<bar>sum_list xs\<bar>" by linarith
  then show ?case using Cons by simp
qed

lemma fsum64_error:
  "\<bar>fsum64 s xs - (s + sum_list xs)\<bar>
     \<le> ((1 + 1 / 2 ^ 53) ^ length xs - 1) * (\<bar>s\<bar> + sum_list (map abs xs))"
proof (induction xs arbitrary: s)
  case Nil
  show ?case by (simp add: fsum64_def)
next
  case (Cons x xs)
  define u :: real where "u = 1 / 2 ^ 53"
  define g where "g = (1 + u) ^ length xs"
  define A where "A = \<bar>s\<bar> + \<bar>x\<bar>"
  define B where "B = sum_list (map abs xs)"
  define s' where "s' = fl (s + x)"
  define F where "F = fsum64 s' xs"
  have u: "0 \<le> u" unfolding u_def by simp
  have g: "1 \<le> g" unfolding g_def using u by (rule pow_ge_one)
  have B: "0 \<le> B" unfolding B_def by (rule sum_abs_nonneg)
  have A: "0 \<le> A" unfolding A_def by simp
  have sx: "\<bar>s + x\<bar> \<le> A" unfolding A_def by linarith
  have "\<bar>s' - (s + x)\<bar> \<le> \<bar>s + x\<bar> * u"
    unfolding s'_def u_def using fl_error [of "s + x"] by simp
  moreover have "\<bar>s + x\<bar> * u \<le> A * u" using sx u by (intro mult_right_mono)
  ultimately have h1: "\<bar>s' - (s + x)\<bar> \<le> A * u" by linarith
  have h2: "\<bar>s'\<bar> \<le> A + A * u" using h1 sx by linarith
  have ih: "\<bar>F - (s' + sum_list xs)\<bar> \<le> (g - 1) * (\<bar>s'\<bar> + B)"
    unfolding F_def g_def u_def B_def by (rule Cons.IH)
  have "(g - 1) * (\<bar>s'\<bar> + B) \<le> (g - 1) * (A + A * u + B)"
    using g h2 by (intro mult_left_mono) simp_all
  then have h3: "\<bar>F - (s' + sum_list xs)\<bar> \<le> (g - 1) * (A + A * u + B)"
    using ih by linarith
  have h4: "\<bar>F - (s + x + sum_list xs)\<bar> \<le> (g - 1) * (A + A * u + B) + A * u"
    using h1 h3 by linarith
  have "0 \<le> B * (g * u)" using B g u by simp
  moreover have "((1 + u) * g - 1) * (A + B) - ((g - 1) * (A + A * u + B) + A * u) = B * (g * u)"
    by (simp add: algebra_simps)
  ultimately have "(g - 1) * (A + A * u + B) + A * u \<le> ((1 + u) * g - 1) * (A + B)"
    by linarith
  then have "\<bar>F - (s + x + sum_list xs)\<bar> \<le> ((1 + u) * g - 1) * (A + B)"
    using h4 by linarith
  moreover have "fsum64 s (x # xs) = F" unfolding F_def s'_def by (simp add: fsum64_def)
  ultimately show ?case
    unfolding g_def u_def A_def B_def by (simp add: algebra_simps)
qed

lemma mean64_error_pow:
  assumes "xs \<noteq> []"
  shows "\<bar>mean64 xs - mean xs\<bar>
           \<le> ((1 + 1 / 2 ^ 53) ^ (length xs + 1) - 1) * mean (map abs xs)"
proof -
  define u :: real where "u = 1 / 2 ^ 53"
  define g where "g = (1 + u) ^ length xs"
  define n where "n = real (length xs)"
  define T where "T = sum_list (map abs xs)"
  define S where "S = sum_list xs"
  define F where "F = fsum64 0 xs"
  have n: "0 < n" unfolding n_def using assms by simp
  have u: "0 \<le> u" unfolding u_def by simp
  have g: "1 \<le> g" unfolding g_def using u by (rule pow_ge_one)
  have T: "0 \<le> T" unfolding T_def by (rule sum_abs_nonneg)
  have ST: "\<bar>S\<bar> \<le> T" unfolding S_def T_def by (rule sum_abs_ge)
  have e: "\<bar>F - S\<bar> \<le> (g - 1) * T"
    using fsum64_error [of 0 xs] unfolding F_def S_def g_def u_def T_def by simp
  have "(g - 1) * T = g * T - T" by (simp add: algebra_simps)
  then have Fb: "\<bar>F\<bar> \<le> g * T" using e ST by linarith
  have d1: "\<bar>F / n - S / n\<bar> \<le> (g - 1) * T / n"
  proof -
    have "\<bar>F / n - S / n\<bar> = \<bar>F - S\<bar> / n" using n by (simp add: diff_divide_distrib [symmetric])
    then show ?thesis using e n by (simp add: divide_right_mono)
  qed
  have "\<bar>fl (F / n) - F / n\<bar> \<le> \<bar>F / n\<bar> * u"
    unfolding u_def using fl_error [of "F / n"] by simp
  moreover have "\<bar>F / n\<bar> * u \<le> g * T / n * u"
  proof -
    have np: "\<bar>n\<bar> = n" using n by simp
    have a: "\<bar>F / n\<bar> = \<bar>F\<bar> / n" by (simp only: abs_divide np)
    have b: "\<bar>F\<bar> / n \<le> g * T / n" using Fb n by (simp add: divide_right_mono)
    show ?thesis unfolding a using b u by (rule mult_right_mono)
  qed
  ultimately have d2: "\<bar>fl (F / n) - F / n\<bar> \<le> g * T / n * u" by linarith
  have "\<bar>fl (F / n) - S / n\<bar> \<le> g * T / n * u + (g - 1) * T / n" using d1 d2 by linarith
  moreover have "g * T / n * u + (g - 1) * T / n = ((1 + u) * g - 1) * (T / n)"
    by (simp add: algebra_simps diff_divide_distrib add_divide_distrib)
  ultimately have "\<bar>fl (F / n) - S / n\<bar> \<le> ((1 + u) * g - 1) * (T / n)" by simp
  then show ?thesis
    unfolding mean64_def mean_def F_def S_def n_def T_def g_def u_def by simp
qed

lemma mean_abs_nonneg: "0 \<le> mean (map abs xs)"
  unfolding mean_def using sum_abs_nonneg [of xs] by simp

lemma mean64_error:
  assumes "xs \<noteq> []" and "length xs < 2 ^ 32"
  shows "\<bar>mean64 xs - mean xs\<bar> \<le> sum_slack xs"
proof -
  define u :: real where "u = 1 / 2 ^ 53"
  define m where "m = length xs + 1"
  have u: "0 \<le> u" unfolding u_def by simp
  have "m \<le> 2 ^ 32" unfolding m_def using assms(2) by simp
  then have "real m \<le> real (2 ^ 32)" by (simp only: of_nat_le_iff)
  then have "real m \<le> 2 ^ 32" by simp
  then have "real m * u \<le> 2 ^ 32 * u" using u by (intro mult_right_mono)
  also have "2 ^ 32 * u \<le> 1 / 2" unfolding u_def by simp
  finally have mu: "real m * u \<le> 1 / 2" .
  have "(1 + u) ^ m \<le> 1 + 2 * real m * u" using u mu by (rule pow_bound)
  then have "(1 + u) ^ m - 1 \<le> real m / 2 ^ 52" unfolding u_def by simp
  then have "((1 + u) ^ m - 1) * mean (map abs xs) \<le> real m / 2 ^ 52 * mean (map abs xs)"
    using mean_abs_nonneg [of xs] by (intro mult_right_mono)
  then show ?thesis
    using mean64_error_pow [OF assms(1)] unfolding sum_slack_def m_def u_def by linarith
qed

lemma median64_error: "\<bar>median64 xs - order_median xs\<bar> \<le> \<bar>order_median xs\<bar> / 2 ^ 53"
proof (cases "odd (length xs)")
  case True
  then show ?thesis by (simp add: median64_def order_median_def Let_def)
next
  case False
  define a where "a = sort xs ! (length xs div 2 - 1)"
  define b where "b = sort xs ! (length xs div 2)"
  have m: "median64 xs = fl (fl (a + b) / 2)" "order_median xs = (a + b) / 2"
    using False by (simp_all add: median64_def order_median_def Let_def a_def b_def)
  have h: "fl (fl (a + b) / 2) = fl (a + b) / 2" by (simp add: fl_half fl_idem)
  have e: "\<bar>fl (a + b) - (a + b)\<bar> \<le> \<bar>a + b\<bar> / 2 ^ 53" by (rule fl_error)
  define c where "c = \<bar>a + b\<bar> / 2 ^ 53"
  define d where "d = fl (a + b) - (a + b)"
  have dc: "\<bar>d\<bar> \<le> c" using e unfolding c_def d_def .
  have "fl (a + b) / 2 - (a + b) / 2 = d / 2" unfolding d_def by (simp add: diff_divide_distrib)
  moreover have "\<bar>d / 2\<bar> \<le> c / 2" using dc by simp
  ultimately have "\<bar>fl (a + b) / 2 - (a + b) / 2\<bar> \<le> c / 2" by (simp only:)
  then have "\<bar>fl (a + b) / 2 - (a + b) / 2\<bar> \<le> \<bar>a + b\<bar> / 2 ^ 53 / 2" unfolding c_def .
  then have "\<bar>fl (fl (a + b) / 2) - (a + b) / 2\<bar> \<le> \<bar>a + b\<bar> / 2 ^ 53 / 2"
    by (simp only: h)
  moreover have "\<bar>(a + b) / 2\<bar> / 2 ^ 53 = \<bar>a + b\<bar> / 2 ^ 53 / 2" by simp
  ultimately show ?thesis unfolding m by (simp only:)
qed

lemma half_sum_between:
  assumes "a \<le> b" and "fl a = a" and "fl b = b"
  shows "a \<le> fl (fl (a + b) / 2)" and "fl (fl (a + b) / 2) \<le> b"
proof -
  have "fl (2 * a) \<le> fl (a + b)" using assms(1) by (intro fl_mono) simp
  then have lo: "a \<le> fl (a + b) / 2" using assms(2) by (simp add: fl_twice)
  have "fl (a + b) \<le> fl (2 * b)" using assms(1) by (intro fl_mono) simp
  then have hi: "fl (a + b) / 2 \<le> b" using assms(3) by (simp add: fl_twice)
  show "a \<le> fl (fl (a + b) / 2)" using fl_mono [OF lo] assms(2) by simp
  show "fl (fl (a + b) / 2) \<le> b" using fl_mono [OF hi] assms(3) by simp
qed

lemma round1_num_mono: "x \<le> y \<Longrightarrow> round1_num x \<le> round1_num y"
proof -
  assume "x \<le> y"
  then have "fl (x * 10) \<le> fl (y * 10)" by (intro fl_mono) simp
  then have "\<lfloor>fl (x * 10) + 1 / 2\<rfloor> \<le> \<lfloor>fl (y * 10) + 1 / 2\<rfloor>" by (intro floor_mono) simp
  then have "real_of_int \<lfloor>fl (x * 10) + 1 / 2\<rfloor> \<le> real_of_int \<lfloor>fl (y * 10) + 1 / 2\<rfloor>"
    by (simp only: of_int_le_iff)
  then have "real_of_int \<lfloor>fl (x * 10) + 1 / 2\<rfloor> / 10 \<le> real_of_int \<lfloor>fl (y * 10) + 1 / 2\<rfloor> / 10"
    by simp
  then show ?thesis unfolding round1_num_def by (rule fl_mono)
qed

lemma round1_num_close: "\<bar>round1_num v - v\<bar> \<le> round1_slack v"
proof -
  define u :: real where "u = 1 / 2 ^ 53"
  define y where "y = fl (v * 10)"
  define k where "k = real_of_int \<lfloor>y + 1 / 2\<rfloor>"
  have u: "0 \<le> u" "u \<le> 1" unfolding u_def by simp_all
  have "\<bar>y - v * 10\<bar> \<le> \<bar>v * 10\<bar> * u" unfolding y_def u_def using fl_error [of "v * 10"] by simp
  then have e1: "\<bar>y - v * 10\<bar> \<le> 10 * (\<bar>v\<bar> * u)" by (simp add: abs_mult)
  have vu: "\<bar>v\<bar> * u \<le> \<bar>v\<bar>" using u by (simp add: mult_left_le)
  have e2: "\<bar>k - y\<bar> \<le> 1 / 2" unfolding k_def by linarith
  have kb: "\<bar>k\<bar> \<le> 20 * \<bar>v\<bar> + 1 / 2" using e1 e2 vu by linarith
  have "\<bar>fl (k / 10) - k / 10\<bar> \<le> \<bar>k / 10\<bar> * u" unfolding u_def using fl_error [of "k / 10"] by simp
  moreover have "\<bar>k / 10\<bar> * u \<le> (2 * \<bar>v\<bar> + 1 / 20) * u"
    using kb u by (intro mult_right_mono) simp_all
  ultimately have e3: "\<bar>fl (k / 10) - k / 10\<bar> \<le> (2 * \<bar>v\<bar> + 1 / 20) * u" by linarith
  have "\<bar>fl (k / 10) - v\<bar> \<le> (2 * \<bar>v\<bar> + 1 / 20) * u + 1 / 20 + \<bar>v\<bar> * u"
    using e1 e2 e3 by linarith
  moreover have "(2 * \<bar>v\<bar> + 1 / 20) * u + \<bar>v\<bar> * u \<le> (3 * \<bar>v\<bar> + 1) * u"
  proof -
    have "(1 / 20) * u \<le> 1 * u" using u by (intro mult_right_mono) simp_all
    then show ?thesis by (simp add: algebra_simps)
  qed
  ultimately have "\<bar>fl (k / 10) - v\<bar> \<le> 1 / 20 + (3 * \<bar>v\<bar> + 1) * u" by linarith
  then show ?thesis unfolding round1_num_def round1_slack_def k_def y_def u_def by simp
qed

lemma round1_num_tenths: "\<exists>k::int. round1_num x = fl (real_of_int k / 10)"
  unfolding round1_num_def by blast

section \<open>The range of the intermediate results\<close>

lemma pow2_int: "0 \<le> j \<Longrightarrow> (2::real) powi j = real_of_int (2 ^ nat j)"
  by (simp add: power_int_def)

lemma pow2_split: "g \<le> e \<Longrightarrow> (2::real) powi e = real_of_int (2 ^ nat (e - g)) * 2 powi g"
proof -
  assume "g \<le> e"
  then have "(2::real) powi (e - g) = real_of_int (2 ^ nat (e - g))" by (intro pow2_int) simp
  moreover have "(2::real) powi e = 2 powi ((e - g) + g)" by simp
  ultimately show ?thesis by (simp only: pow2_add)
qed

lemma on_grid_zero: "on_grid g 0"
  unfolding on_grid_def by (rule exI [of _ 0]) simp

lemma on_grid_add: "on_grid g x \<Longrightarrow> on_grid g y \<Longrightarrow> on_grid g (x + y)"
proof -
  assume "on_grid g x" and "on_grid g y"
  then obtain k l :: int where "x = real_of_int k * 2 powi g" "y = real_of_int l * 2 powi g"
    unfolding on_grid_def by blast
  then have "x + y = real_of_int (k + l) * 2 powi g" by (simp add: algebra_simps)
  then show ?thesis unfolding on_grid_def by blast
qed

lemma on_grid_coarser: "g \<le> e \<Longrightarrow> on_grid e x \<Longrightarrow> on_grid g x"
proof -
  assume le: "g \<le> e" and "on_grid e x"
  then obtain k :: int where "x = real_of_int k * 2 powi e" unfolding on_grid_def by blast
  then have "x = real_of_int (k * 2 ^ nat (e - g)) * 2 powi g"
    using pow2_split [OF le] by simp
  then show ?thesis unfolding on_grid_def by blast
qed

lemma on_grid_nonzero:
  assumes "on_grid g x" and "x \<noteq> 0"
  shows "2 powi g \<le> \<bar>x\<bar>"
proof -
  obtain k :: int where x: "x = real_of_int k * 2 powi g" using assms(1) unfolding on_grid_def by blast
  have "k \<noteq> 0" using assms(2) x by auto
  then have "1 \<le> \<bar>k\<bar>" by simp
  then have "1 \<le> \<bar>real_of_int k\<bar>" by (metis of_int_1_le_iff of_int_abs)
  then have "1 * 2 powi g \<le> \<bar>real_of_int k\<bar> * 2 powi g"
    using pow2_pos [of g] by (intro mult_right_mono) simp_all
  moreover have "\<bar>x\<bar> = \<bar>real_of_int k\<bar> * 2 powi g"
    unfolding x using pow2_pos [of g] by (simp add: abs_mult)
  ultimately show ?thesis by simp
qed

lemma fl_on_own_grid: "on_grid (expo x - 52) (fl x)"
proof (cases "x = 0")
  case True
  then show ?thesis by (simp add: fl_zero on_grid_zero)
next
  case False
  then show ?thesis unfolding on_grid_def using fl_quantum [OF False] quantum_def by auto
qed

lemma fl_exact_on_grid:
  assumes "on_grid g x" and "expo x - 52 \<le> g"
  shows "fl x = x"
proof (cases "x = 0")
  case True
  then show ?thesis by (simp add: fl_zero)
next
  case False
  have "on_grid (expo x - 52) x" using assms(2,1) by (rule on_grid_coarser)
  then obtain k :: int where x: "x = real_of_int k * quantum x"
    unfolding on_grid_def quantum_def by blast
  have "x / quantum x = real_of_int k"
  proof -
    have "x / quantum x = real_of_int k * quantum x / quantum x" using x by simp
    then show ?thesis using quantum_pos [of x] by simp
  qed
  then have "round_even (x / quantum x) = k" by (simp only: round_even_int)
  then have "fl x = real_of_int k * quantum x" using fl_quantum [OF False] by simp
  then show ?thesis using x by simp
qed

lemma on_grid_fl:
  assumes "on_grid g x"
  shows "on_grid g (fl x)"
proof (cases "expo x - 52 \<le> g")
  case True
  then show ?thesis using fl_exact_on_grid [OF assms] assms by simp
next
  case False
  then have "g \<le> expo x - 52" by simp
  then show ?thesis using fl_on_own_grid [of x] by (rule on_grid_coarser)
qed

lemma expo_ge:
  assumes "2 powi a \<le> \<bar>x\<bar>"
  shows "a \<le> expo x"
proof -
  have "0 < \<bar>x\<bar>" using assms pow2_pos [of a] by linarith
  then have nz: "x \<noteq> 0" by simp
  have "2 powi a < (2::real) powi (expo x + 1)" using assms expo_bounds(2) [OF nz] by linarith
  then have "a < expo x + 1" by (rule pow2_less_imp)
  then show ?thesis by simp
qed

lemma fl_abs: "\<bar>fl x\<bar> = fl \<bar>x\<bar>"
proof (cases "0 \<le> x")
  case True
  then show ?thesis using fl_nonneg [of x] by simp
next
  case False
  then have "fl x \<le> 0" by (intro fl_nonpos) simp
  then show ?thesis using False by (simp add: fl_minus)
qed

lemma fl_abs_ge:
  assumes "2 powi a \<le> \<bar>x\<bar>"
  shows "2 powi a \<le> \<bar>fl x\<bar>"
proof -
  have pos: "0 < \<bar>x\<bar>" using assms pow2_pos [of a] by linarith
  have "a \<le> expo \<bar>x\<bar>" using assms by (intro expo_ge) simp
  then have "(2::real) powi a \<le> 2 powi (expo \<bar>x\<bar>)" by (rule pow2_mono)
  also have "\<dots> \<le> fl \<bar>x\<bar>" using pos by (rule fl_pos_bounds(1))
  finally show ?thesis by (simp add: fl_abs)
qed

lemma double64_on_grid:
  assumes "double64 x"
  shows "on_grid (- 552) x"
proof (cases "x = 0")
  case True
  then show ?thesis by (simp add: on_grid_zero)
next
  case False
  have f: "fl x = x" and lo: "1 / 2 ^ 500 \<le> \<bar>x\<bar>"
    using assms False by (simp_all add: double64_def)
  have "(2::real) powi (- int 500) \<le> \<bar>x\<bar>" using lo by (simp only: pow2_neg_nat)
  then have "- int 500 \<le> expo x" by (rule expo_ge)
  then have "- 552 \<le> expo x - 52" by simp
  then show ?thesis using fl_on_own_grid [of x] unfolding f by (rule on_grid_coarser)
qed

lemma fsum64_on_grid:
  "on_grid g s \<Longrightarrow> \<forall>x \<in> set xs. on_grid g x \<Longrightarrow> on_grid g (fsum64 s xs)"
proof (induction xs arbitrary: s)
  case Nil
  then show ?case by (simp add: fsum64_def)
next
  case (Cons x xs)
  have "on_grid g (fl (s + x))" using Cons.prems by (intro on_grid_fl on_grid_add) simp_all
  then have "on_grid g (fsum64 (fl (s + x)) xs)" using Cons.prems by (intro Cons.IH) simp_all
  then show ?case by (simp add: fsum64_def)
qed

lemma sum_abs_upper:
  "\<forall>x \<in> set xs. \<bar>x\<bar> \<le> B \<Longrightarrow> sum_list (map abs (xs :: real list)) \<le> real (length xs) * B"
  by (induction xs) (auto simp: algebra_simps)

lemma fsum64_abs_le:
  assumes "length xs < 2 ^ 32" and "\<forall>x \<in> set xs. \<bar>x\<bar> \<le> 2 ^ 500"
  shows "\<bar>fsum64 0 xs\<bar> \<le> 2 ^ 533"
proof -
  define u :: real where "u = 1 / 2 ^ 53"
  define g where "g = (1 + u) ^ length xs"
  define T where "T = sum_list (map abs xs)"
  have u: "0 \<le> u" unfolding u_def by simp
  have "length xs \<le> 2 ^ 32" using assms(1) by simp
  then have "real (length xs) \<le> real (2 ^ 32)" by (simp only: of_nat_le_iff)
  then have n: "real (length xs) \<le> 2 ^ 32" by simp
  then have "real (length xs) * u \<le> 2 ^ 32 * u" using u by (intro mult_right_mono)
  also have "2 ^ 32 * u \<le> 1 / 2" unfolding u_def by simp
  finally have nu: "real (length xs) * u \<le> 1 / 2" .
  have "g \<le> 1 + 2 * real (length xs) * u" unfolding g_def using u nu by (rule pow_bound)
  then have g2: "g \<le> 2" using nu by linarith
  have g1: "1 \<le> g" unfolding g_def using u by (rule pow_ge_one)
  have T0: "0 \<le> T" unfolding T_def by (rule sum_abs_nonneg)
  have "T \<le> real (length xs) * 2 ^ 500" unfolding T_def using assms(2) by (rule sum_abs_upper)
  also have "\<dots> \<le> 2 ^ 32 * 2 ^ 500" using n by (intro mult_right_mono) simp_all
  finally have T: "T \<le> 2 ^ 532" by simp
  have e: "\<bar>fsum64 0 xs - sum_list xs\<bar> \<le> (g - 1) * T"
    using fsum64_error [of 0 xs] unfolding g_def u_def T_def by simp
  have "\<bar>sum_list xs\<bar> \<le> T" unfolding T_def by (rule sum_abs_ge)
  moreover have "(g - 1) * T = g * T - T" by (simp add: algebra_simps)
  ultimately have "\<bar>fsum64 0 xs\<bar> \<le> g * T" using e by linarith
  also have "g * T \<le> 2 * T" using g2 T0 by (intro mult_right_mono)
  also have "2 * T \<le> 2 * 2 ^ 532" using T by simp
  finally show ?thesis by simp
qed

lemma double_sample_elems:
  assumes "double_sample xs" and "x \<in> set xs"
  shows "\<bar>x\<bar> \<le> 2 ^ 500" and "on_grid (- 552) x" and "fl x = x"
proof -
  have d: "double64 x" using assms by (simp add: double_sample_def)
  then show "on_grid (- 552) x" by (rule double64_on_grid)
  show "fl x = x" using d by (simp add: double64_def)
  show "\<bar>x\<bar> \<le> 2 ^ 500" using d by (auto simp: double64_def)
qed

lemma grid_normal:
  assumes "on_grid g x" and "- 1022 \<le> g" and "\<bar>x\<bar> \<le> 2 ^ 1023"
  shows "normal64 x"
proof (cases "x = 0")
  case True
  then show ?thesis by (simp add: normal64_def)
next
  case False
  have "(2::real) powi (- int 1022) \<le> 2 powi g" using assms(2) by (intro pow2_mono) simp
  also have "\<dots> \<le> \<bar>x\<bar>" using assms(1) False by (rule on_grid_nonzero)
  finally have "1 / 2 ^ 1022 \<le> \<bar>x\<bar>" by (simp only: pow2_neg_nat)
  then show ?thesis using assms(3) by (simp add: normal64_def)
qed

lemma prefix_sum_normal:
  assumes "double_sample xs" and "k < length xs"
  shows "normal64 (fsum64 0 (take k xs) + xs ! k)"
proof -
  have sub: "\<forall>x \<in> set (take k xs). x \<in> set xs" by (meson in_set_takeD)
  have len: "length (take k xs) < 2 ^ 32" using assms by (simp add: double_sample_def)
  have b: "\<forall>x \<in> set (take k xs). \<bar>x\<bar> \<le> 2 ^ 500"
    using sub double_sample_elems(1) [OF assms(1)] by blast
  have gr: "\<forall>x \<in> set (take k xs). on_grid (- 552) x"
    using sub double_sample_elems(2) [OF assms(1)] by blast
  have xk: "xs ! k \<in> set xs" using assms(2) by simp
  have F: "\<bar>fsum64 0 (take k xs)\<bar> \<le> 2 ^ 533" using len b by (rule fsum64_abs_le)
  have "on_grid (- 552) (fsum64 0 (take k xs))"
    using on_grid_zero gr by (rule fsum64_on_grid)
  then have g: "on_grid (- 552) (fsum64 0 (take k xs) + xs ! k)"
    using double_sample_elems(2) [OF assms(1) xk] by (rule on_grid_add)
  have "\<bar>fsum64 0 (take k xs) + xs ! k\<bar> \<le> 2 ^ 533 + 2 ^ 500"
    using F double_sample_elems(1) [OF assms(1) xk] by linarith
  also have "\<dots> \<le> (2::real) ^ 1023" by simp
  finally show ?thesis using g by (intro grid_normal [of "- 552"]) simp_all
qed

lemma quotient_normal:
  assumes "double_sample xs" and "xs \<noteq> []"
  shows "normal64 (fsum64 0 xs / real (length xs))"
    and "mean64 xs = 0 \<or> 1 / 2 ^ 600 \<le> \<bar>mean64 xs\<bar>"
    and "\<bar>mean64 xs\<bar> \<le> 2 ^ 600"
proof -
  define F where "F = fsum64 0 xs"
  define n where "n = real (length xs)"
  have len: "length xs < 2 ^ 32" using assms(1) by (simp add: double_sample_def)
  then have "length xs \<le> 2 ^ 32" by simp
  then have "real (length xs) \<le> real (2 ^ 32)" by (simp only: of_nat_le_iff)
  then have n2: "n \<le> 2 ^ 32" unfolding n_def by simp
  have "1 \<le> length xs" using assms(2) by (cases xs) simp_all
  then have "real 1 \<le> real (length xs)" by (simp only: of_nat_le_iff)
  then have n1: "1 \<le> n" unfolding n_def by simp
  have b: "\<forall>x \<in> set xs. \<bar>x\<bar> \<le> 2 ^ 500" using double_sample_elems(1) [OF assms(1)] by blast
  have gr: "\<forall>x \<in> set xs. on_grid (- 552) x" using double_sample_elems(2) [OF assms(1)] by blast
  have Fb: "\<bar>F\<bar> \<le> 2 ^ 533" unfolding F_def using len b by (rule fsum64_abs_le)
  have Fg: "on_grid (- 552) F" unfolding F_def using on_grid_zero gr by (rule fsum64_on_grid)
  have qa: "\<bar>F / n\<bar> = \<bar>F\<bar> / n" using n1 by simp
  have hi: "\<bar>F / n\<bar> \<le> 2 ^ 533"
  proof -
    have "\<bar>F\<bar> / n \<le> \<bar>F\<bar> / 1" using n1 by (intro divide_left_mono) simp_all
    then show ?thesis unfolding qa using Fb by simp
  qed
  have lo: "F \<noteq> 0 \<Longrightarrow> 1 / 2 ^ 584 \<le> \<bar>F / n\<bar>"
  proof -
    assume "F \<noteq> 0"
    then have "2 powi (- int 552) \<le> \<bar>F\<bar>" using on_grid_nonzero [OF Fg] by simp
    then have f: "1 / 2 ^ 552 \<le> \<bar>F\<bar>" by (simp only: pow2_neg_nat)
    have "(1 / 2 ^ 552) / 2 ^ 32 \<le> \<bar>F\<bar> / 2 ^ 32" using f by (intro divide_right_mono) simp_all
    also have "\<dots> \<le> \<bar>F\<bar> / n" using n1 n2 by (intro divide_left_mono) simp_all
    finally show ?thesis unfolding qa by simp
  qed
  show "normal64 (fsum64 0 xs / real (length xs))"
  proof (cases "F = 0")
    case True
    then show ?thesis unfolding F_def [symmetric] by (simp add: normal64_def)
  next
    case False
    have "(1::real) / 2 ^ 1022 \<le> 1 / 2 ^ 584" by simp
    then have "1 / 2 ^ 1022 \<le> \<bar>F / n\<bar>" using lo [OF False] by linarith
    moreover have "\<bar>F / n\<bar> \<le> 2 ^ 1023"
    proof -
      have "(2::real) ^ 533 \<le> 2 ^ 1023" by simp
      then show ?thesis using hi by linarith
    qed
    ultimately show ?thesis unfolding F_def n_def normal64_def by simp
  qed
  have m: "mean64 xs = fl (F / n)" unfolding mean64_def F_def n_def ..
  show "mean64 xs = 0 \<or> 1 / 2 ^ 600 \<le> \<bar>mean64 xs\<bar>"
  proof (cases "F = 0")
    case True
    then show ?thesis unfolding m by (simp add: fl_zero)
  next
    case False
    have "2 powi (- int 584) \<le> \<bar>F / n\<bar>" using lo [OF False] by (simp only: pow2_neg_nat)
    then have "2 powi (- int 584) \<le> \<bar>fl (F / n)\<bar>" by (rule fl_abs_ge)
    then have "1 / 2 ^ 584 \<le> \<bar>fl (F / n)\<bar>" by (simp only: pow2_neg_nat)
    moreover have "(1::real) / 2 ^ 600 \<le> 1 / 2 ^ 584" by simp
    ultimately show ?thesis unfolding m by linarith
  qed
  show "\<bar>mean64 xs\<bar> \<le> 2 ^ 600"
  proof -
    have "\<bar>fl (F / n)\<bar> \<le> (1 + 1 / 2 ^ 53) * \<bar>F / n\<bar>" by (rule fl_abs_le)
    also have "\<dots> \<le> 2 * \<bar>F / n\<bar>" by (intro mult_right_mono) simp_all
    also have "\<dots> \<le> 2 * 2 ^ 533" using hi by simp
    also have "\<dots> \<le> (2::real) ^ 600" by simp
    finally show ?thesis unfolding m .
  qed
qed

lemma round1_normal:
  assumes "v = 0 \<or> 1 / 2 ^ 600 \<le> \<bar>v\<bar>" and "\<bar>v\<bar> \<le> 2 ^ 600"
  shows "normal64 (v * 10)" and "normal64 (real_of_int \<lfloor>fl (v * 10) + 1 / 2\<rfloor> / 10)"
proof -
  show "normal64 (v * 10)"
  proof (cases "v = 0")
    case True
    then show ?thesis by (simp add: normal64_def)
  next
    case False
    then have lo: "1 / 2 ^ 600 \<le> \<bar>v\<bar>" using assms(1) by simp
    have "(1::real) / 2 ^ 1022 \<le> 1 / 2 ^ 600" by simp
    then have "1 / 2 ^ 1022 \<le> \<bar>v\<bar> * 10" using lo by linarith
    moreover have "\<bar>v\<bar> * 10 \<le> 2 ^ 1023"
    proof -
      have "\<bar>v\<bar> * 10 \<le> 2 ^ 600 * 10" using assms(2) by simp
      also have "\<dots> \<le> (2::real) ^ 1023" by simp
      finally show ?thesis .
    qed
    ultimately show ?thesis by (simp add: normal64_def abs_mult)
  qed
  define y where "y = fl (v * 10)"
  define k where "k = \<lfloor>y + 1 / 2\<rfloor>"
  have "\<bar>y\<bar> \<le> (1 + 1 / 2 ^ 53) * \<bar>v * 10\<bar>" unfolding y_def by (rule fl_abs_le)
  also have "\<dots> \<le> 2 * \<bar>v * 10\<bar>" by (intro mult_right_mono) simp_all
  also have "\<dots> \<le> 2 * (2 ^ 600 * 10)" using assms(2) by (simp add: abs_mult)
  finally have yb: "\<bar>y\<bar> \<le> 20 * 2 ^ 600" by simp
  have "\<bar>real_of_int k - y\<bar> \<le> 1" unfolding k_def by linarith
  then have kb: "\<bar>real_of_int k\<bar> \<le> 20 * 2 ^ 600 + 1" using yb by linarith
  show "normal64 (real_of_int \<lfloor>fl (v * 10) + 1 / 2\<rfloor> / 10)"
  proof (cases "k = 0")
    case True
    then show ?thesis unfolding y_def [symmetric] k_def [symmetric] by (simp add: normal64_def)
  next
    case False
    then have "1 \<le> \<bar>k\<bar>" by simp
    then have k1: "1 \<le> \<bar>real_of_int k\<bar>" by (metis of_int_1_le_iff of_int_abs)
    have "(1::real) / 2 ^ 1022 \<le> 1 / 10" by simp
    then have "1 / 2 ^ 1022 \<le> \<bar>real_of_int k\<bar> / 10" using k1 by linarith
    moreover have "\<bar>real_of_int k\<bar> / 10 \<le> 2 ^ 1023"
    proof -
      have "\<bar>real_of_int k\<bar> / 10 \<le> (20 * 2 ^ 600 + 1) / 10" using kb by simp
      also have "\<dots> \<le> (2::real) ^ 1023" by simp
      finally show ?thesis .
    qed
    ultimately show ?thesis
      unfolding y_def [symmetric] k_def [symmetric] by (simp add: normal64_def)
  qed
qed

lemma half_sum_normal:
  assumes "double_sample xs" and "a \<in> set xs" and "b \<in> set xs"
  shows "normal64 (a + b)" and "normal64 (fl (a + b) / 2)"
    and "fl (fl (a + b) / 2) = 0 \<or> 1 / 2 ^ 600 \<le> \<bar>fl (fl (a + b) / 2)\<bar>"
    and "\<bar>fl (fl (a + b) / 2)\<bar> \<le> 2 ^ 600"
proof -
  note A = double_sample_elems [OF assms(1,2)]
  note B = double_sample_elems [OF assms(1,3)]
  have g: "on_grid (- 552) (a + b)" using A(2) B(2) by (rule on_grid_add)
  have ab: "\<bar>a + b\<bar> \<le> 2 ^ 501" using A(1) B(1) by simp
  have "(2::real) ^ 501 \<le> 2 ^ 1023" by simp
  then have "\<bar>a + b\<bar> \<le> 2 ^ 1023" using ab by linarith
  then show "normal64 (a + b)" using g by (intro grid_normal [of "- 552"]) simp_all
  define s where "s = fl (a + b)"
  have sg: "on_grid (- 552) s" unfolding s_def using g by (rule on_grid_fl)
  have "\<bar>s\<bar> \<le> (1 + 1 / 2 ^ 53) * \<bar>a + b\<bar>" unfolding s_def by (rule fl_abs_le)
  also have "\<dots> \<le> 2 * \<bar>a + b\<bar>" by (intro mult_right_mono) simp_all
  also have "\<dots> \<le> 2 * 2 ^ 501" using ab by simp
  finally have sb: "\<bar>s\<bar> \<le> 2 ^ 502" by simp
  have lo: "s \<noteq> 0 \<Longrightarrow> 1 / 2 ^ 553 \<le> \<bar>s / 2\<bar>"
  proof -
    assume "s \<noteq> 0"
    then have "2 powi (- int 552) \<le> \<bar>s\<bar>" using on_grid_nonzero [OF sg] by simp
    then have "1 / 2 ^ 552 \<le> \<bar>s\<bar>" by (simp only: pow2_neg_nat)
    then show ?thesis by simp
  qed
  have h: "fl (s / 2) = s / 2" unfolding s_def by (simp add: fl_half fl_idem)
  show "normal64 (fl (a + b) / 2)"
  proof (cases "s = 0")
    case True
    then show ?thesis unfolding s_def [symmetric] by (simp add: normal64_def)
  next
    case False
    have "(1::real) / 2 ^ 1022 \<le> 1 / 2 ^ 553" by simp
    then have "1 / 2 ^ 1022 \<le> \<bar>s / 2\<bar>" using lo [OF False] by linarith
    moreover have "(2::real) ^ 502 \<le> 2 ^ 1023" by simp
    then have "\<bar>s / 2\<bar> \<le> 2 ^ 1023" using sb by simp
    ultimately show ?thesis unfolding s_def [symmetric] normal64_def by simp
  qed
  show "fl (fl (a + b) / 2) = 0 \<or> 1 / 2 ^ 600 \<le> \<bar>fl (fl (a + b) / 2)\<bar>"
  proof (cases "s = 0")
    case True
    then show ?thesis unfolding s_def [symmetric] h by simp
  next
    case False
    have "(1::real) / 2 ^ 600 \<le> 1 / 2 ^ 553" by simp
    then have "1 / 2 ^ 600 \<le> \<bar>s / 2\<bar>" using lo [OF False] by linarith
    then show ?thesis unfolding s_def [symmetric] h by simp
  qed
  show "\<bar>fl (fl (a + b) / 2)\<bar> \<le> 2 ^ 600"
  proof -
    have "(2::real) ^ 502 \<le> 2 ^ 600" by simp
    then have "\<bar>s / 2\<bar> \<le> 2 ^ 600" using sb by simp
    then show ?thesis unfolding s_def [symmetric] h .
  qed
qed

lemma sort_nth_mem: "i < length xs \<Longrightarrow> sort xs ! i \<in> set xs"
proof -
  assume "i < length xs"
  then have "sort xs ! i \<in> set (sort xs)" by (simp del: set_sort)
  then show ?thesis by simp
qed

lemma median64_range:
  assumes "xs \<noteq> []" and "double_sample xs"
  shows "median64 xs = 0 \<or> 1 / 2 ^ 600 \<le> \<bar>median64 xs\<bar>" and "\<bar>median64 xs\<bar> \<le> 2 ^ 600"
proof -
  have n: "length xs div 2 < length xs" using assms(1) by simp
  have "length xs \<noteq> 0" using assms(1) by simp
  then have e: "length xs div 2 - 1 < length xs" by linarith
  have "(median64 xs = 0 \<or> 1 / 2 ^ 600 \<le> \<bar>median64 xs\<bar>) \<and> \<bar>median64 xs\<bar> \<le> 2 ^ 600"
  proof (cases "odd (length xs)")
    case True
    define m where "m = sort xs ! (length xs div 2)"
    have mm: "median64 xs = m" using True by (simp add: median64_def Let_def m_def)
    have "m \<in> set xs" unfolding m_def using n by (rule sort_nth_mem)
    then have d: "double64 m" using assms(2) by (simp add: double_sample_def)
    have a: "(1::real) / 2 ^ 600 \<le> 1 / 2 ^ 500" and b: "(2::real) ^ 500 \<le> 2 ^ 600" by simp_all
    have "m = 0 \<or> 1 / 2 ^ 500 \<le> \<bar>m\<bar>" and "\<bar>m\<bar> \<le> 2 ^ 500"
      using d by (auto simp: double64_def)
    then have "(m = 0 \<or> 1 / 2 ^ 600 \<le> \<bar>m\<bar>) \<and> \<bar>m\<bar> \<le> 2 ^ 600" using a b by linarith
    then show ?thesis unfolding mm .
  next
    case False
    define a where "a = sort xs ! (length xs div 2 - 1)"
    define b where "b = sort xs ! (length xs div 2)"
    have mm: "median64 xs = fl (fl (a + b) / 2)"
      using False by (simp add: median64_def Let_def a_def b_def)
    have "a \<in> set xs" unfolding a_def using e by (rule sort_nth_mem)
    moreover have "b \<in> set xs" unfolding b_def using n by (rule sort_nth_mem)
    ultimately show ?thesis unfolding mm using half_sum_normal(3,4) [OF assms(2)] by blast
  qed
  then show "median64 xs = 0 \<or> 1 / 2 ^ 600 \<le> \<bar>median64 xs\<bar>" and "\<bar>median64 xs\<bar> \<le> 2 ^ 600"
    by simp_all
qed

lemma double_sample_normal:
  assumes "xs \<noteq> []" and "double_sample xs"
  shows "normal_ops xs"
proof -
  have n: "length xs div 2 < length xs" using assms(1) by simp
  have "length xs \<noteq> 0" using assms(1) by simp
  then have e: "length xs div 2 - 1 < length xs" by linarith
  have p: "\<forall>k < length xs. normal64 (fsum64 0 (take k xs) + xs ! k)"
    using prefix_sum_normal [OF assms(2)] by blast
  note q = quotient_normal [OF assms(2,1)]
  note m = median64_range [OF assms]
  have h: "even (length xs) \<longrightarrow>
            normal64 (sort xs ! (length xs div 2 - 1) + sort xs ! (length xs div 2))
          \<and> normal64 (fl (sort xs ! (length xs div 2 - 1) + sort xs ! (length xs div 2)) / 2)"
    using half_sum_normal(1,2) [OF assms(2) sort_nth_mem [OF e] sort_nth_mem [OF n]] by blast
  show ?thesis
    unfolding normal_ops_def
    by (intro conjI p q(1) h round1_normal [OF q(2,3)] round1_normal [OF m])
qed

section \<open>The loop of the stats engine in closed form\<close>

lemma loop_completed: "accCompleted (fold loopBody trs a) = accCompleted a + length trs"
  by (induction trs arbitrary: a) (simp_all add: loopBody_def Let_def)

lemma loop_misses: "accMisses (fold loopBody trs a) = accMisses a + length (filter isMiss trs)"
  by (induction trs arbitrary: a) (simp_all add: loopBody_def Let_def isMiss_def)

lemma loop_wrong: "accWrongKey (fold loopBody trs a) = accWrongKey a + length (filter isWrong trs)"
  by (induction trs arbitrary: a) (simp_all add: loopBody_def Let_def isWrong_def)

lemma loop_premature:
  "accPremature (fold loopBody trs a) = accPremature a + length (filter premature trs)"
  by (induction trs arbitrary: a) (simp_all add: loopBody_def Let_def)

lemma loop_samples:
  "rtAllCorrect (fold loopBody trs a) = rtAllCorrect a @ map rt (filter isCorrect trs)"
  by (induction trs arbitrary: a) (simp_all add: loopBody_def Let_def isCorrect_def)

lemma loop_byColor:
  "rtByColor (fold loopBody trs a) c
     = rtByColor a c @ map rt (filter (\<lambda>t. isCorrect t \<and> color t = c) trs)"
  by (induction trs arbitrary: a) (simp_all add: loopBody_def Let_def isCorrect_def)

lemma loop_attempts:
  "attempts (accPerColor (fold loopBody trs a) c)
     = attempts (accPerColor a c) + length (filter (\<lambda>t. color t = c) trs)"
  by (induction trs arbitrary: a) (simp_all add: loopBody_def Let_def)

lemma loop_pc_correct:
  "pc_correct (accPerColor (fold loopBody trs a) c)
     = pc_correct (accPerColor a c) + length (filter (\<lambda>t. isCorrect t \<and> color t = c) trs)"
  by (induction trs arbitrary: a) (simp_all add: loopBody_def Let_def isCorrect_def)

lemma loop_rt_fields:
  "avgRT (accPerColor (fold loopBody trs a) c) = avgRT (accPerColor a c)"
  "medianRT (accPerColor (fold loopBody trs a) c) = medianRT (accPerColor a c)"
  "minRT (accPerColor (fold loopBody trs a) c) = minRT (accPerColor a c)"
  "maxRT (accPerColor (fold loopBody trs a) c) = maxRT (accPerColor a c)"
  by (induction trs arbitrary: a) (simp_all add: loopBody_def Let_def)

lemma outcome_partition:
  "length (filter isCorrect trs) + length (filter isWrong trs) + length (filter isMiss trs)
     = length trs"
  by (induction trs) (auto simp: isCorrect_def isWrong_def isMiss_def)

lemma stats_total: "totalTrials (computeStats trs) = length trs"
  by (simp add: computeStats_def Let_def)

lemma stats_completed: "completedTrials (computeStats trs) = length trs"
  by (simp add: computeStats_def Let_def loop_completed accInit_def)

lemma stats_misses: "misses (computeStats trs) = length (filter isMiss trs)"
  by (simp add: computeStats_def Let_def loop_misses accInit_def)

lemma stats_wrong: "wrongKeyErrors (computeStats trs) = length (filter isWrong trs)"
  by (simp add: computeStats_def Let_def loop_wrong accInit_def)

lemma stats_correct: "n_correct (computeStats trs) = length (filter isCorrect trs)"
  by (simp add: computeStats_def Let_def loop_samples accInit_def)

lemma stats_premature: "prematureErrors (computeStats trs) = length (filter premature trs)"
  by (simp add: computeStats_def Let_def loop_premature accInit_def)

lemma stats_samples: "rtSamples (computeStats trs) = map rt (filter isCorrect trs)"
  by (simp add: computeStats_def Let_def loop_samples accInit_def)

lemma stats_samples_by_color:
  "rtSamplesByColor (computeStats trs) c
     = map rt (filter (\<lambda>t. isCorrect t \<and> color t = c) trs)"
  by (simp add: computeStats_def Let_def loop_byColor accInit_def)

lemma stats_perColor:
  "perColor (computeStats trs) c =
     finishColor (accPerColor (fold loopBody trs accInit) c)
       (rtSamplesByColor (computeStats trs) c)"
  by (simp add: computeStats_def Let_def)

lemma finishColor_pc_correct: "pc_correct (finishColor p arr) = pc_correct p"
  by (cases arr) (simp_all add: finishColor_def Let_def)

lemma finishColor_attempts: "attempts (finishColor p arr) = attempts p"
  by (cases arr) (simp_all add: finishColor_def Let_def)

lemma stats_pc_correct:
  "pc_correct (perColor (computeStats trs) c)
     = length (filter (\<lambda>t. isCorrect t \<and> color t = c) trs)"
  by (simp add: stats_perColor finishColor_pc_correct loop_pc_correct accInit_def
      perColorInit_def)

lemma stats_attempts:
  "attempts (perColor (computeStats trs) c) = length (filter (\<lambda>t. color t = c) trs)"
  by (simp add: stats_perColor finishColor_attempts loop_attempts accInit_def perColorInit_def)

lemma sampleLog_samples: "rtSamples (computeStats sampleLog) = map Some [300, 200]"
  by (simp add: stats_samples sampleLog_def answered_def isCorrect_def)

lemma sampleLog_red: "rtSamplesByColor (computeStats sampleLog) R = map Some [300]"
  by (simp add: stats_samples_by_color sampleLog_def answered_def isCorrect_def)

section \<open>Outcome counters\<close>

text \<open>
  Claim C1. For every list of trial records, the correct, wrong-key and miss counters of
  \<^verbatim>\<open>computeStats\<close> add up to \<open>totalTrials\<close>, and \<open>totalTrials\<close>, \<open>completedTrials\<close> and
  the length of the log coincide. Each iteration of the loop raises exactly one of the
  three counters by one, whatever the record holds.
\<close>

theorem computeStats_outcome_counts:
  "n_correct (computeStats trs) + wrongKeyErrors (computeStats trs) + misses (computeStats trs)
     = totalTrials (computeStats trs)
   \<and> totalTrials (computeStats trs) = completedTrials (computeStats trs)
   \<and> totalTrials (computeStats trs) = length trs
   \<and> length (rtAllCorrect (loopBody t a)) + accWrongKey (loopBody t a) + accMisses (loopBody t a)
       = length (rtAllCorrect a) + accWrongKey a + accMisses a + 1"
proof -
  have "length (rtAllCorrect (loopBody t a)) + accWrongKey (loopBody t a) + accMisses (loopBody t a)
       = length (rtAllCorrect a) + accWrongKey a + accMisses a + 1"
    by (simp add: loopBody_def Let_def)
  then show ?thesis
    using outcome_partition [of trs]
    by (simp add: stats_total stats_completed stats_correct stats_wrong stats_misses)
qed

theorem computeStats_outcome_counts_witness:
  "n_correct (computeStats sampleLog) = 2 \<and> wrongKeyErrors (computeStats sampleLog) = 1
   \<and> misses (computeStats sampleLog) = 1 \<and> totalTrials (computeStats sampleLog) = 4
   \<and> completedTrials (computeStats sampleLog) = 4"
proof -
  have v: "n_correct (computeStats sampleLog) = 2" "wrongKeyErrors (computeStats sampleLog) = 1"
    by (simp_all add: stats_correct stats_wrong sampleLog_def answered_def isCorrect_def
        isWrong_def)
  have l: "length sampleLog = 4" by (simp add: sampleLog_def)
  show ?thesis
    using computeStats_outcome_counts [of sampleLog "hd sampleLog" accInit] v l by simp
qed

lemma loopBody_missed_fields:
  "missed t = Some True \<Longrightarrow>
     loopBody (t\<lparr>respondedAt := ra, rt := r, correct := ok, wrongKey := w\<rparr>) a = loopBody t a"
  by (simp add: loopBody_def Let_def)

lemma computeStats_missed_fields:
  assumes "missed t = Some True"
  shows "computeStats (pre @ t\<lparr>respondedAt := ra, rt := r, correct := ok, wrongKey := w\<rparr> # post)
           = computeStats (pre @ t # post)"
  by (simp add: computeStats_def loopBody_missed_fields [OF assms])

text \<open>
  Claim C10. A record with \<open>missed = true\<close> is counted as one miss (besides the attempt,
  the completed trial and, if flagged, the premature press, which are counted before the
  flag is read). Compared with the log without it, the miss counter is one higher, and the
  correct counter, the wrong-key counter, the latency samples and the per-colour correct
  counters are the same; the result does not depend on what \<open>respondedAt\<close>, \<open>rt\<close>,
  \<open>correct\<close> and \<open>wrongKey\<close> hold on that record.
\<close>

theorem missed_takes_precedence:
  assumes "missed t = Some True"
  shows "misses (computeStats (pre @ t # post)) = misses (computeStats (pre @ post)) + 1
     \<and> n_correct (computeStats (pre @ t # post)) = n_correct (computeStats (pre @ post))
     \<and> wrongKeyErrors (computeStats (pre @ t # post)) = wrongKeyErrors (computeStats (pre @ post))
     \<and> rtSamples (computeStats (pre @ t # post)) = rtSamples (computeStats (pre @ post))
     \<and> (\<forall>c. rtSamplesByColor (computeStats (pre @ t # post)) c
              = rtSamplesByColor (computeStats (pre @ post)) c)
     \<and> (\<forall>c. pc_correct (perColor (computeStats (pre @ t # post)) c)
              = pc_correct (perColor (computeStats (pre @ post)) c))
     \<and> totalTrials (computeStats (pre @ t # post)) = totalTrials (computeStats (pre @ post)) + 1
     \<and> prematureErrors (computeStats (pre @ t # post))
         = prematureErrors (computeStats (pre @ post)) + (if premature t then 1 else 0)
     \<and> (\<forall>ra r ok w.
          computeStats (pre @ t\<lparr>respondedAt := ra, rt := r, correct := ok, wrongKey := w\<rparr> # post)
            = computeStats (pre @ t # post))"
proof -
  have m: "isMiss t" and c: "\<not> isCorrect t" and w: "\<not> isWrong t"
    using assms by (simp_all add: isMiss_def isCorrect_def isWrong_def)
  show ?thesis
    using m c w computeStats_missed_fields [OF assms, of pre _ _ _ _ post]
    by (simp add: stats_misses stats_correct stats_wrong stats_samples stats_samples_by_color
        stats_pc_correct stats_total stats_premature)
qed

theorem missed_takes_precedence_witness:
  "missed missedTrial = Some True
   \<and> misses (computeStats [answered R 300, missedTrial]) = 1
   \<and> n_correct (computeStats [answered R 300, missedTrial]) = 1
   \<and> wrongKeyErrors (computeStats [answered R 300, missedTrial]) = 0
   \<and> rtSamples (computeStats [answered R 300, missedTrial]) = [Some 300]"
proof -
  have h: "missed missedTrial = Some True" by (simp add: missedTrial_def)
  have e: "computeStats ([answered R 300] @ []) = computeStats [answered R 300]" by simp
  have v: "misses (computeStats [answered R 300]) = 0"
    "n_correct (computeStats [answered R 300]) = 1"
    "wrongKeyErrors (computeStats [answered R 300]) = 0"
    "rtSamples (computeStats [answered R 300]) = [Some 300]"
    by (simp_all add: stats_misses stats_correct stats_wrong stats_samples answered_def
        isMiss_def isCorrect_def isWrong_def)
  show ?thesis
    using h missed_takes_precedence [OF h, of "[answered R 300]" "[]"] v
    by (simp add: e)
qed

section \<open>Mean, median and rounding\<close>

lemma fold_add_Some:
  "fold (\<lambda>b a. js_add a (to_number b)) (map Some xs) (Num s) = Num (fsum64 s xs)"
  by (induction xs arbitrary: s) (simp_all add: fsum64_def)

lemma avg_Some: "xs \<noteq> [] \<Longrightarrow> avg (map Some xs) = Num (mean64 xs)"
  by (simp add: avg_def fold_add_Some mean64_def)

lemma js_add_NaN: "js_add v NaN = NaN"
  by (cases v) simp_all

lemma fold_add_NaN: "fold (\<lambda>b a. js_add a (to_number b)) arr NaN = NaN"
  by (induction arr) simp_all

lemma fold_add_None:
  "None \<in> set arr \<Longrightarrow> fold (\<lambda>b a. js_add a (to_number b)) arr v = NaN"
proof (induction arr arbitrary: v)
  case Nil
  then show ?case by simp
next
  case (Cons b bs)
  show ?case
  proof (cases b)
    case None
    then show ?thesis by (simp add: js_add_NaN fold_add_NaN)
  next
    case (Some x)
    then have "None \<in> set bs" using Cons.prems by auto
    then show ?thesis using Cons.IH by simp
  qed
qed

lemma avg_None: "None \<in> set arr \<Longrightarrow> avg arr = NaN"
  by (simp add: avg_def fold_add_None)

lemma map_filter_id_Some: "List.map_filter id (map Some xs) = xs"
  by (induction xs) (simp_all add: List.map_filter_simps)

lemma filter_None_Some: "filter (\<lambda>v. v = None) (map Some xs) = []"
  by (induction xs) simp_all

lemma js_sort_Some: "js_sort (map Some xs) = map Some (sort xs)"
  by (simp add: js_sort_def map_filter_id_Some filter_None_Some)

lemma js_nth_Some: "i < length xs \<Longrightarrow> js_nth (map Some xs) i = Num (xs ! i)"
  by (simp add: js_nth_def)

lemma median_Some:
  assumes "xs \<noteq> []"
  shows "median (map Some xs) = Num (median64 xs)"
proof (cases "odd (length xs)")
  case True
  then have "length xs div 2 < length xs" using assms by simp
  then show ?thesis using True assms
    by (simp add: median_def js_sort_Some js_nth_Some median64_def Let_def
        odd_iff_mod_2_eq_one)
next
  case False
  have "length xs \<noteq> 0" using assms by simp
  then have "length xs div 2 < length xs" "length xs div 2 - 1 < length xs" by linarith+
  then show ?thesis using False assms
    by (simp add: median_def js_sort_Some js_nth_Some median64_def Let_def
        even_iff_mod_2_eq_zero)
qed

lemma fold_min_Some:
  "fold (\<lambda>b a. js_min2 a (to_number b)) (map Some xs) (Num m) = Num (Min (set (m # xs)))"
proof (induction xs arbitrary: m)
  case Nil
  show ?case by simp
next
  case (Cons x xs)
  have "Min (insert (min m x) (set xs)) = Min (insert m (insert x (set xs)))"
    by (cases "xs = []") (simp_all add: min.assoc)
  with Cons show ?case by simp
qed

lemma fold_max_Some:
  "fold (\<lambda>b a. js_max2 a (to_number b)) (map Some xs) (Num m) = Num (Max (set (m # xs)))"
proof (induction xs arbitrary: m)
  case Nil
  show ?case by simp
next
  case (Cons x xs)
  have "Max (insert (max m x) (set xs)) = Max (insert m (insert x (set xs)))"
    by (cases "xs = []") (simp_all add: max.assoc)
  with Cons show ?case by simp
qed

lemma Math_min_Some: "Math_min (Some x) (map Some xs) = Num (Min (set (x # xs)))"
  by (simp add: Math_min_def fold_min_Some)

lemma Math_max_Some: "Math_max (Some x) (map Some xs) = Num (Max (set (x # xs)))"
  by (simp add: Math_max_def fold_max_Some)

lemma sum_list_lower: "\<forall>x \<in> set xs. a \<le> x \<Longrightarrow> real (length xs) * a \<le> sum_list xs"
  by (induction xs) (auto simp: algebra_simps)

lemma sum_list_upper: "\<forall>x \<in> set xs. x \<le> a \<Longrightarrow> sum_list xs \<le> real (length xs) * a"
  by (induction xs) (auto simp: algebra_simps)

lemma mean_bounds:
  assumes "xs \<noteq> []"
  shows "Min (set xs) \<le> mean xs" and "mean xs \<le> Max (set xs)"
proof -
  have pos: "0 < real (length xs)" using assms by simp
  have "real (length xs) * Min (set xs) \<le> sum_list xs" by (rule sum_list_lower) simp
  then show "Min (set xs) \<le> mean xs"
    using pos by (simp add: mean_def pos_le_divide_eq mult.commute)
  have "sum_list xs \<le> real (length xs) * Max (set xs)" by (rule sum_list_upper) simp
  then show "mean xs \<le> Max (set xs)"
    using pos by (simp add: mean_def pos_divide_le_eq mult.commute)
qed

lemma mean64_bounds:
  assumes "xs \<noteq> []" and "length xs < 2 ^ 32"
  shows "Min (set xs) - sum_slack xs \<le> mean64 xs" and "mean64 xs \<le> Max (set xs) + sum_slack xs"
  using mean64_error [OF assms] mean_bounds [OF assms(1)] by linarith+

lemma sorted_nth_bounds:
  assumes "i < length xs"
  shows "Min (set xs) \<le> sort xs ! i" and "sort xs ! i \<le> Max (set xs)"
    and "sort xs ! i \<in> set xs"
proof -
  have "sort xs ! i \<in> set (sort xs)" using assms by (simp del: set_sort)
  then show m: "sort xs ! i \<in> set xs" by simp
  then show "Min (set xs) \<le> sort xs ! i" and "sort xs ! i \<le> Max (set xs)" by simp_all
qed

lemma median64_bounds:
  assumes "xs \<noteq> []" and "\<forall>x \<in> set xs. fl x = x"
  shows "Min (set xs) \<le> median64 xs" and "median64 xs \<le> Max (set xs)"
proof -
  have n: "length xs div 2 < length xs" using assms(1) by simp
  have "Min (set xs) \<le> median64 xs \<and> median64 xs \<le> Max (set xs)"
  proof (cases "odd (length xs)")
    case True
    then show ?thesis
      using sorted_nth_bounds(1,2) [OF n] by (simp add: median64_def Let_def)
  next
    case False
    define a where "a = sort xs ! (length xs div 2 - 1)"
    define b where "b = sort xs ! (length xs div 2)"
    have "length xs \<noteq> 0" using assms(1) by simp
    then have e: "length xs div 2 - 1 < length xs" by linarith
    have m: "median64 xs = fl (fl (a + b) / 2)"
      using False by (simp add: median64_def Let_def a_def b_def)
    have "sorted (sort xs)" by simp
    moreover have "length xs div 2 - 1 \<le> length xs div 2" by simp
    moreover have "length xs div 2 < length (sort xs)" using n by simp
    ultimately have ab: "a \<le> b" unfolding a_def b_def by (rule sorted_nth_mono)
    have fa: "fl a = a" using sorted_nth_bounds(3) [OF e] assms(2) unfolding a_def by blast
    have fb: "fl b = b" using sorted_nth_bounds(3) [OF n] assms(2) unfolding b_def by blast
    have "Min (set xs) \<le> a" unfolding a_def by (rule sorted_nth_bounds(1) [OF e])
    moreover have "b \<le> Max (set xs)" unfolding b_def by (rule sorted_nth_bounds(2) [OF n])
    ultimately show ?thesis
      unfolding m using half_sum_between [OF ab fa fb] by linarith
  qed
  then show "Min (set xs) \<le> median64 xs" and "median64 xs \<le> Max (set xs)" by simp_all
qed

lemma round1_defined: "round1 v \<noteq> Undefined"
  by (cases v) simp_all

lemma finishColor_nonempty:
  "arr = v # vs \<Longrightarrow> avgRT (finishColor p arr) = round1 (avg arr)
     \<and> medianRT (finishColor p arr) = round1 (median arr)
     \<and> minRT (finishColor p arr) = Math_min v vs
     \<and> maxRT (finishColor p arr) = Math_max v vs"
  by (simp add: finishColor_def Let_def)

lemma finishColor_empty:
  "avgRT (finishColor p []) = avgRT p \<and> medianRT (finishColor p []) = medianRT p
     \<and> minRT (finishColor p []) = minRT p \<and> maxRT (finishColor p []) = maxRT p"
  by (simp add: finishColor_def Let_def)

lemma init_rt_fields:
  "avgRT (accPerColor (fold loopBody trs accInit) c) = Undefined"
  "medianRT (accPerColor (fold loopBody trs accInit) c) = Undefined"
  by (simp_all add: loop_rt_fields accInit_def perColorInit_def)

lemma stats_overall_undefined:
  "(overallAvgRT (computeStats trs) = Undefined) = (rtSamples (computeStats trs) = [])"
  "(overallMedianRT (computeStats trs) = Undefined) = (rtSamples (computeStats trs) = [])"
  by (simp_all add: computeStats_def Let_def round1_defined)

lemma stats_color_undefined:
  "(avgRT (perColor (computeStats trs) c) = Undefined)
     = (rtSamplesByColor (computeStats trs) c = [])"
  "(medianRT (perColor (computeStats trs) c) = Undefined)
     = (rtSamplesByColor (computeStats trs) c = [])"
  by (cases "rtSamplesByColor (computeStats trs) c";
      simp add: stats_perColor finishColor_nonempty finishColor_empty init_rt_fields
        round1_defined)+

lemma stats_overall_values:
  assumes "xs \<noteq> []" and "rtSamples (computeStats trs) = map Some xs"
  shows "overallAvgRT (computeStats trs) = Num (round1_num (mean64 xs))"
    and "overallMedianRT (computeStats trs) = Num (round1_num (median64 xs))"
proof -
  have a: "rtAllCorrect (fold loopBody trs accInit) = map Some xs"
    using assms(2) by (simp add: computeStats_def Let_def)
  show "overallAvgRT (computeStats trs) = Num (round1_num (mean64 xs))"
    using assms(1) by (simp add: computeStats_def Let_def a avg_Some)
  show "overallMedianRT (computeStats trs) = Num (round1_num (median64 xs))"
    using assms(1) by (simp add: computeStats_def Let_def a median_Some)
qed

lemma stats_overall_NaN:
  assumes "None \<in> set (rtSamples (computeStats trs))"
  shows "overallAvgRT (computeStats trs) = NaN"
proof -
  have a: "None \<in> set (rtAllCorrect (fold loopBody trs accInit))"
    using assms by (simp add: computeStats_def Let_def)
  then have "rtAllCorrect (fold loopBody trs accInit) \<noteq> []" by auto
  then show ?thesis using avg_None [OF a] by (simp add: computeStats_def Let_def)
qed

lemma finishColor_Some:
  assumes "xs \<noteq> []"
  shows "avgRT (finishColor p (map Some xs)) = Num (round1_num (mean64 xs))"
    and "medianRT (finishColor p (map Some xs)) = Num (round1_num (median64 xs))"
    and "minRT (finishColor p (map Some xs)) = Num (Min (set xs))"
    and "maxRT (finishColor p (map Some xs)) = Num (Max (set xs))"
proof -
  obtain y ys where xs: "xs = y # ys" using assms by (cases xs) auto
  have m: "map Some xs = Some y # map Some ys" using xs by simp
  note fc = finishColor_nonempty [OF m, of p]
  show "avgRT (finishColor p (map Some xs)) = Num (round1_num (mean64 xs))"
    using fc avg_Some [OF assms] by simp
  show "medianRT (finishColor p (map Some xs)) = Num (round1_num (median64 xs))"
    using fc median_Some [OF assms] by simp
  show "minRT (finishColor p (map Some xs)) = Num (Min (set xs))"
    using fc Math_min_Some [of y ys] xs by simp
  show "maxRT (finishColor p (map Some xs)) = Num (Max (set xs))"
    using fc Math_max_Some [of y ys] xs by simp
qed

lemma stats_color_values:
  assumes "xs \<noteq> []" and "rtSamplesByColor (computeStats trs) c = map Some xs"
  shows "avgRT (perColor (computeStats trs) c) = Num (round1_num (mean64 xs))"
    and "medianRT (perColor (computeStats trs) c) = Num (round1_num (median64 xs))"
    and "minRT (perColor (computeStats trs) c) = Num (Min (set xs))"
    and "maxRT (perColor (computeStats trs) c) = Num (Max (set xs))"
  using finishColor_Some [OF assms(1)] by (simp_all add: stats_perColor assms(2))

lemma stats_color_NaN:
  assumes "None \<in> set (rtSamplesByColor (computeStats trs) c)"
  shows "avgRT (perColor (computeStats trs) c) = NaN"
proof -
  obtain v vs where arr: "rtSamplesByColor (computeStats trs) c = v # vs"
    using assms by (cases "rtSamplesByColor (computeStats trs) c") auto
  have "avg (rtSamplesByColor (computeStats trs) c) = NaN" using assms by (rule avg_None)
  then show ?thesis
    using finishColor_nonempty [OF arr] by (simp add: stats_perColor)
qed

lemma data_model_samples:
  assumes "\<forall>t \<in> set trs. (rt t \<noteq> None) = (respondedAt t \<noteq> None)"
  shows "\<exists>xs. map rt (filter P (filter isCorrect trs)) = map Some xs"
proof -
  have "\<forall>v \<in> set (map rt (filter P (filter isCorrect trs))). v \<noteq> None"
    using assms by (auto simp: isCorrect_def)
  then have "map rt (filter P (filter isCorrect trs))
      = map Some (map the (map rt (filter P (filter isCorrect trs))))"
    by (simp add: map_idI)
  then show ?thesis by blast
qed

lemma floatLog_samples:
  "rtSamples (computeStats floatLog)
     = map Some [lat_4010_35, lat_250_26, lat_4010_35, lat_310_04, lat_4010_35]"
  by (simp add: stats_samples floatLog_def answered_def isCorrect_def)

lemma floatLog_red:
  "rtSamplesByColor (computeStats floatLog) R = map Some [lat_4010_35, lat_4010_35, lat_4010_35]"
  by (simp add: stats_samples_by_color floatLog_def answered_def isCorrect_def)

lemma floatLog_yellow:
  "rtSamplesByColor (computeStats floatLog) Y = map Some [lat_250_26, lat_310_04]"
  by (simp add: stats_samples_by_color floatLog_def answered_def isCorrect_def)

lemma lat_binary64:
  "fl lat_102_45 = lat_102_45" "fl lat_4010_35 = lat_4010_35"
  "fl lat_310_04 = lat_310_04" "fl lat_250_26 = lat_250_26"
  by code_simp+

lemma lat_double:
  "double64 lat_4010_35" "double64 lat_310_04" "double64 lat_250_26"
proof -
  show "double64 lat_4010_35"
    unfolding double64_def
    by (intro conjI disjI2 lat_binary64) (simp_all add: lat_4010_35_def)
  show "double64 lat_310_04"
    unfolding double64_def
    by (intro conjI disjI2 lat_binary64) (simp_all add: lat_310_04_def)
  show "double64 lat_250_26"
    unfolding double64_def
    by (intro conjI disjI2 lat_binary64) (simp_all add: lat_250_26_def)
qed

lemma floatLog_double:
  "double_sample [lat_4010_35, lat_250_26, lat_4010_35, lat_310_04, lat_4010_35]"
  "double_sample [lat_4010_35, lat_4010_35, lat_4010_35]"
  "double_sample [lat_250_26, lat_310_04]"
  by (simp_all add: double_sample_def lat_double)

lemma floatLog_round1:
  "round1_num (mean64 [lat_4010_35, lat_250_26, lat_4010_35, lat_310_04, lat_4010_35])
     = 2768900132228301 / 1099511627776"
  "round1_num (median64 [lat_4010_35, lat_250_26, lat_4010_35, lat_310_04, lat_4010_35])
     = 4409371480870093 / 1099511627776"
  "round1_num (mean64 [lat_4010_35, lat_4010_35, lat_4010_35])
     = 8818962864065741 / 2199023255552"
  "round1_num (median64 [lat_4010_35, lat_4010_35, lat_4010_35])
     = 4409371480870093 / 1099511627776"
  "round1_num (mean64 [lat_250_26, lat_310_04]) = 4929330529645363 / 17592186044416"
  "round1_num (median64 [lat_250_26, lat_310_04]) = 4929330529645363 / 17592186044416"
  by code_simp+

lemma floatLog_unrounded:
  "mean64 [lat_4010_35, lat_4010_35, lat_4010_35] = 8818852912902963 / 2199023255552"
  "median64 [lat_4010_35, lat_4010_35, lat_4010_35] = lat_4010_35"
  "mean64 [lat_250_26, lat_310_04] = 2464225460171571 / 8796093022208"
  "median64 [lat_250_26, lat_310_04] = 2464225460171571 / 8796093022208"
  by code_simp+

text \<open>
  Claim C2, as stated, fails twice. A single correct latency of 102.44999999999999 ms
  has the arithmetic mean and the median 102.44999999999999, which rounded to one
  decimal place is 102.4; the program reports 102.5 for both, because the product by
  10 is rounded to 1024.5 before \<^verbatim>\<open>Math.round\<close>. And a correct record that carries
  \<open>respondedAt\<close> and no \<open>rt\<close> makes a non-empty sample on which the mean and the
  median are \<^verbatim>\<open>NaN\<close>.
\<close>

theorem reported_mean_not_rounded_mean_counterexample:
  "rtSamplesByColor (computeStats [answered R lat_102_45]) R = [Some lat_102_45]
   \<and> avgRT (perColor (computeStats [answered R lat_102_45]) R) = Num (205 / 2)
   \<and> medianRT (perColor (computeStats [answered R lat_102_45]) R) = Num (205 / 2)
   \<and> round_tenth (mean [lat_102_45]) = 512 / 5
   \<and> round_tenth (order_median [lat_102_45]) = 512 / 5
   \<and> avgRT (perColor (computeStats [answered R lat_102_45]) R)
        \<noteq> Num (round_tenth (mean [lat_102_45]))
   \<and> medianRT (perColor (computeStats [answered R lat_102_45]) R)
        \<noteq> Num (round_tenth (order_median [lat_102_45]))
   \<and> rtSamples (computeStats [noRtTrial]) = [None]
   \<and> overallAvgRT (computeStats [noRtTrial]) = NaN
   \<and> overallMedianRT (computeStats [noRtTrial]) = NaN"
proof -
  have s: "rtSamplesByColor (computeStats [answered R lat_102_45]) R = map Some [lat_102_45]"
    by (simp add: stats_samples_by_color answered_def isCorrect_def)
  have r: "round1_num (mean64 [lat_102_45]) = 205 / 2"
    "round1_num (median64 [lat_102_45]) = 205 / 2"
    by code_simp+
  have t: "round_tenth (mean [lat_102_45]) = 512 / 5"
    "round_tenth (order_median [lat_102_45]) = 512 / 5"
    by (simp_all add: round_tenth_def mean_def order_median_def lat_102_45_def)
  have n: "rtSamples (computeStats [noRtTrial]) = [None]"
    by (simp add: stats_samples noRtTrial_def isCorrect_def)
  have a: "overallAvgRT (computeStats [noRtTrial]) = NaN"
    by (rule stats_overall_NaN) (simp add: n)
  have m: "overallMedianRT (computeStats [noRtTrial]) = NaN"
    using n by (simp add: computeStats_def Let_def median_def js_sort_def js_nth_def
        List.map_filter_simps)
  have v: "avgRT (perColor (computeStats [answered R lat_102_45]) R) = Num (205 / 2)"
    "medianRT (perColor (computeStats [answered R lat_102_45]) R) = Num (205 / 2)"
    using stats_color_values(1,2) [OF _ s] r by simp_all
  show ?thesis using s n a m v t by simp
qed

text \<open>
  Claim C2, amended. For every list of trial records, the overall and the per-category
  mean and median are \<^verbatim>\<open>undefined\<close> exactly when the corresponding correct-only sample
  is empty. The sample is the list of the \<open>rt\<close> fields of the records that are not
  missed, carry a response and are correct; in a log of the data model (\<open>rt\<close> present
  iff \<open>respondedAt\<close> present) every sample holds numbers only, and a sample that holds
  an \<^verbatim>\<open>undefined\<close> has the mean \<^verbatim>\<open>NaN\<close>. When the sample is not empty and holds
  binary64 numbers (\<open>double_sample\<close>), the reported mean is \<open>round1_num\<close> of the binary64
  mean (running sum from the left, then the quotient) and the reported median is
  \<open>round1_num\<close> of the binary64 median (the middle value of the sorted sample, or the
  half-sum of the two middle values); no operation overflows or leaves the normal
  range on the way (\<open>normal_ops\<close>). The binary64 mean is within \<open>sum_slack\<close> of the
  arithmetic mean, the binary64 median within a relative \<open>1 / 2 ^ 53\<close> of the
  order-statistic median, and \<open>round1_num v\<close> is the binary64 number nearest to some
  multiple of a tenth, within \<open>round1_slack v\<close> (barely more than 0.05) of \<open>v\<close>; it need not be
  the tenth nearest to \<open>v\<close>.
\<close>

theorem computeStats_mean_median:
  "(overallAvgRT (computeStats trs) = Undefined \<longleftrightarrow> rtSamples (computeStats trs) = [])
   \<and> (overallMedianRT (computeStats trs) = Undefined \<longleftrightarrow> rtSamples (computeStats trs) = [])
   \<and> (avgRT (perColor (computeStats trs) c) = Undefined
        \<longleftrightarrow> rtSamplesByColor (computeStats trs) c = [])
   \<and> (medianRT (perColor (computeStats trs) c) = Undefined
        \<longleftrightarrow> rtSamplesByColor (computeStats trs) c = [])
   \<and> rtSamples (computeStats trs) = map rt (filter isCorrect trs)
   \<and> rtSamplesByColor (computeStats trs) c
        = map rt (filter (\<lambda>t. isCorrect t \<and> color t = c) trs)
   \<and> ((\<forall>t \<in> set trs. (rt t \<noteq> None) = (respondedAt t \<noteq> None)) \<longrightarrow>
         (\<exists>xs. rtSamples (computeStats trs) = map Some xs)
       \<and> (\<exists>xs. rtSamplesByColor (computeStats trs) c = map Some xs))
   \<and> (None \<in> set (rtSamples (computeStats trs)) \<longrightarrow> overallAvgRT (computeStats trs) = NaN)
   \<and> (None \<in> set (rtSamplesByColor (computeStats trs) c)
        \<longrightarrow> avgRT (perColor (computeStats trs) c) = NaN)
   \<and> (\<forall>xs. xs \<noteq> [] \<and> double_sample xs \<and> rtSamples (computeStats trs) = map Some xs \<longrightarrow>
          overallAvgRT (computeStats trs) = Num (round1_num (mean64 xs))
        \<and> overallMedianRT (computeStats trs) = Num (round1_num (median64 xs)))
   \<and> (\<forall>xs. xs \<noteq> [] \<and> double_sample xs
          \<and> rtSamplesByColor (computeStats trs) c = map Some xs \<longrightarrow>
          avgRT (perColor (computeStats trs) c) = Num (round1_num (mean64 xs))
        \<and> medianRT (perColor (computeStats trs) c) = Num (round1_num (median64 xs)))
   \<and> (\<forall>xs. xs \<noteq> [] \<and> double_sample xs \<longrightarrow>
          normal_ops xs
        \<and> \<bar>mean64 xs - mean xs\<bar> \<le> sum_slack xs
        \<and> \<bar>median64 xs - order_median xs\<bar> \<le> \<bar>order_median xs\<bar> / 2 ^ 53)
   \<and> (\<forall>v. \<bar>round1_num v - v\<bar> \<le> round1_slack v
          \<and> (\<exists>k::int. round1_num v = fl (real_of_int k / 10)))"
proof -
  have r: "\<forall>v. \<bar>round1_num v - v\<bar> \<le> round1_slack v
          \<and> (\<exists>k::int. round1_num v = fl (real_of_int k / 10))"
    using round1_num_close round1_num_tenths by blast
  have e: "\<forall>xs. xs \<noteq> [] \<and> double_sample xs \<longrightarrow>
          normal_ops xs
        \<and> \<bar>mean64 xs - mean xs\<bar> \<le> sum_slack xs
        \<and> \<bar>median64 xs - order_median xs\<bar> \<le> \<bar>order_median xs\<bar> / 2 ^ 53"
    using mean64_error median64_error double_sample_normal by (simp add: double_sample_def)
  have d: "(\<forall>t \<in> set trs. (rt t \<noteq> None) = (respondedAt t \<noteq> None)) \<longrightarrow>
         (\<exists>xs. rtSamples (computeStats trs) = map Some xs)
       \<and> (\<exists>xs. rtSamplesByColor (computeStats trs) c = map Some xs)"
  proof
    assume a: "\<forall>t \<in> set trs. (rt t \<noteq> None) = (respondedAt t \<noteq> None)"
    have "\<exists>xs. rtSamples (computeStats trs) = map Some xs"
      using data_model_samples [OF a, of "\<lambda>t. True"] by (simp add: stats_samples)
    moreover have "\<exists>xs. rtSamplesByColor (computeStats trs) c = map Some xs"
      using data_model_samples [OF a, of "\<lambda>t. color t = c"]
      by (simp add: stats_samples_by_color conj_commute)
    ultimately show "(\<exists>xs. rtSamples (computeStats trs) = map Some xs)
       \<and> (\<exists>xs. rtSamplesByColor (computeStats trs) c = map Some xs)" by simp
  qed
  have o: "\<forall>xs. xs \<noteq> [] \<and> double_sample xs \<and> rtSamples (computeStats trs) = map Some xs \<longrightarrow>
          overallAvgRT (computeStats trs) = Num (round1_num (mean64 xs))
        \<and> overallMedianRT (computeStats trs) = Num (round1_num (median64 xs))"
    using stats_overall_values [of _ trs] by blast
  have p: "\<forall>xs. xs \<noteq> [] \<and> double_sample xs
          \<and> rtSamplesByColor (computeStats trs) c = map Some xs \<longrightarrow>
          avgRT (perColor (computeStats trs) c) = Num (round1_num (mean64 xs))
        \<and> medianRT (perColor (computeStats trs) c) = Num (round1_num (median64 xs))"
    using stats_color_values(1,2) [of _ trs c] by blast
  have n: "None \<in> set (rtSamples (computeStats trs)) \<longrightarrow> overallAvgRT (computeStats trs) = NaN"
    "None \<in> set (rtSamplesByColor (computeStats trs) c)
        \<longrightarrow> avgRT (perColor (computeStats trs) c) = NaN"
    using stats_overall_NaN [of trs] stats_color_NaN [of trs c] by blast+
  show ?thesis
    by (intro conjI stats_overall_undefined stats_color_undefined stats_samples
        stats_samples_by_color d n o p e r)
qed

theorem computeStats_mean_median_witness:
  "list_all (\<lambda>t. (rt t \<noteq> None) = (respondedAt t \<noteq> None)) floatLog
   \<and> rtSamples (computeStats floatLog)
       = map Some [lat_4010_35, lat_250_26, lat_4010_35, lat_310_04, lat_4010_35]
   \<and> double_sample [lat_4010_35, lat_250_26, lat_4010_35, lat_310_04, lat_4010_35]
   \<and> overallAvgRT (computeStats floatLog) = Num (2768900132228301 / 1099511627776)
   \<and> overallMedianRT (computeStats floatLog) = Num (4409371480870093 / 1099511627776)
   \<and> rtSamplesByColor (computeStats floatLog) Y = map Some [lat_250_26, lat_310_04]
   \<and> double_sample [lat_250_26, lat_310_04]
   \<and> avgRT (perColor (computeStats floatLog) Y) = Num (4929330529645363 / 17592186044416)
   \<and> medianRT (perColor (computeStats floatLog) Y) = Num (4929330529645363 / 17592186044416)
   \<and> avgRT (perColor (computeStats floatLog) G) = Undefined
   \<and> None \<in> set (rtSamples (computeStats [noRtTrial]))
   \<and> overallAvgRT (computeStats [noRtTrial]) = NaN"
proof -
  note y = computeStats_mean_median [of floatLog Y]
  note g = computeStats_mean_median [of floatLog G]
  note z = computeStats_mean_median [of "[noRtTrial]" R]
  have dm: "list_all (\<lambda>t. (rt t \<noteq> None) = (respondedAt t \<noteq> None)) floatLog"
    by (simp add: floatLog_def answered_def)
  then have da: "\<forall>t \<in> set floatLog. (rt t \<noteq> None) = (respondedAt t \<noteq> None)"
    by (simp only: list_all_iff)
  have ds: "\<exists>xs. rtSamplesByColor (computeStats floatLog) Y = map Some xs"
    using y da by blast
  have ne: "[lat_4010_35, lat_250_26, lat_4010_35, lat_310_04, lat_4010_35] \<noteq> []"
    "[lat_250_26, lat_310_04] \<noteq> []" by simp_all
  have o: "overallAvgRT (computeStats floatLog)
        = Num (round1_num (mean64 [lat_4010_35, lat_250_26, lat_4010_35, lat_310_04, lat_4010_35]))
      \<and> overallMedianRT (computeStats floatLog)
        = Num (round1_num (median64 [lat_4010_35, lat_250_26, lat_4010_35, lat_310_04,
            lat_4010_35]))"
    using y ne(1) floatLog_double(1) floatLog_samples by blast
  have p: "avgRT (perColor (computeStats floatLog) Y)
        = Num (round1_num (mean64 [lat_250_26, lat_310_04]))
      \<and> medianRT (perColor (computeStats floatLog) Y)
        = Num (round1_num (median64 [lat_250_26, lat_310_04]))"
    using y ne(2) floatLog_double(3) floatLog_yellow by blast
  have ge: "rtSamplesByColor (computeStats floatLog) G = []"
    by (simp add: stats_samples_by_color floatLog_def answered_def isCorrect_def)
  have gu: "avgRT (perColor (computeStats floatLog) G) = Undefined" using g ge by blast
  have nn: "None \<in> set (rtSamples (computeStats [noRtTrial]))"
    by (simp add: stats_samples noRtTrial_def isCorrect_def)
  have na: "overallAvgRT (computeStats [noRtTrial]) = NaN" using z nn by blast
  show ?thesis
    using dm floatLog_samples floatLog_double(1,3) floatLog_yellow o p gu nn na
    by (simp add: floatLog_round1)
qed

section \<open>Reported values against the sample's range\<close>

text \<open>
  Claim C3, as stated, fails: a single correct latency of 310.04 ms is reported with
  \<open>minRT = 310.04\<close> and \<open>avgRT = medianRT = 310\<close>, so \<open>minRT \<le> avgRT\<close> and
  \<open>minRT \<le> medianRT\<close> are false.
\<close>

theorem rounded_mean_below_min_counterexample:
  "minRT (perColor (computeStats [answered R lat_310_04]) R) = Num lat_310_04
   \<and> avgRT (perColor (computeStats [answered R lat_310_04]) R) = Num 310
   \<and> medianRT (perColor (computeStats [answered R lat_310_04]) R) = Num 310
   \<and> \<not> js_le (minRT (perColor (computeStats [answered R lat_310_04]) R))
              (avgRT (perColor (computeStats [answered R lat_310_04]) R))
   \<and> \<not> js_le (minRT (perColor (computeStats [answered R lat_310_04]) R))
              (medianRT (perColor (computeStats [answered R lat_310_04]) R))"
proof -
  have s: "rtSamplesByColor (computeStats [answered R lat_310_04]) R = map Some [lat_310_04]"
    by (simp add: stats_samples_by_color answered_def isCorrect_def)
  have r: "round1_num (mean64 [lat_310_04]) = 310" "round1_num (median64 [lat_310_04]) = 310"
    by code_simp+
  have l: "\<not> lat_310_04 \<le> 310" by (simp add: lat_310_04_def)
  show ?thesis
    using stats_color_values [OF _ s] r l by simp
qed

text \<open>
  Claim C3, amended. For every trial log whose per-category correct-only sample is not
  empty and holds binary64 numbers (\<open>double_sample\<close>), \<open>minRT\<close> and \<open>maxRT\<close> are the
  least and the greatest sample, reported as they are, and no operation of the mean,
  the median and the rounding leaves the normal range (\<open>normal_ops\<close>). The median before \<open>round1_num\<close>
  lies between them and the reported median between \<open>round1 minRT\<close> and
  \<open>round1 maxRT\<close>. The mean before \<open>round1_num\<close> lies between \<open>minRT - sum_slack\<close> and
  \<open>maxRT + sum_slack\<close>; it can exceed \<open>maxRT\<close>, and the reported mean can exceed
  \<open>round1 maxRT\<close>. Each reported value is within \<open>round1_slack\<close> (barely more than 0.05) of
  the value before \<open>round1_num\<close>, so the reported median is at most that far outside
  \<open>minRT .. maxRT\<close> and the reported mean at most that far plus \<open>sum_slack\<close>.
\<close>

theorem computeStats_rt_bounds:
  assumes "xs \<noteq> []" and "double_sample xs"
    and "rtSamplesByColor (computeStats trs) c = map Some xs"
  shows "minRT (perColor (computeStats trs) c) = Num (Min (set xs))
     \<and> maxRT (perColor (computeStats trs) c) = Num (Max (set xs))
     \<and> avgRT (perColor (computeStats trs) c) = Num (round1_num (mean64 xs))
     \<and> medianRT (perColor (computeStats trs) c) = Num (round1_num (median64 xs))
     \<and> normal_ops xs
     \<and> Min (set xs) \<le> median64 xs \<and> median64 xs \<le> Max (set xs)
     \<and> js_le (round1 (minRT (perColor (computeStats trs) c)))
          (medianRT (perColor (computeStats trs) c))
     \<and> js_le (medianRT (perColor (computeStats trs) c))
          (round1 (maxRT (perColor (computeStats trs) c)))
     \<and> Min (set xs) - sum_slack xs \<le> mean64 xs \<and> mean64 xs \<le> Max (set xs) + sum_slack xs
     \<and> \<bar>round1_num (median64 xs) - median64 xs\<bar> \<le> round1_slack (median64 xs)
     \<and> \<bar>round1_num (mean64 xs) - mean64 xs\<bar> \<le> round1_slack (mean64 xs)
     \<and> Min (set xs) - round1_slack (median64 xs) \<le> round1_num (median64 xs)
     \<and> round1_num (median64 xs) \<le> Max (set xs) + round1_slack (median64 xs)
     \<and> Min (set xs) - sum_slack xs - round1_slack (mean64 xs) \<le> round1_num (mean64 xs)
     \<and> round1_num (mean64 xs) \<le> Max (set xs) + sum_slack xs + round1_slack (mean64 xs)"
proof -
  note v = stats_color_values [OF assms(1,3)]
  have len: "length xs < 2 ^ 32" and dbl: "\<forall>x \<in> set xs. fl x = x"
    using assms(2) by (simp_all add: double_sample_def double64_def)
  note mb = mean64_bounds [OF assms(1) len]
  note ob = median64_bounds [OF assms(1) dbl]
  note cm = round1_num_close [of "mean64 xs"]
  note co = round1_num_close [of "median64 xs"]
  have j1: "js_le (round1 (minRT (perColor (computeStats trs) c)))
          (medianRT (perColor (computeStats trs) c))"
    using round1_num_mono [OF ob(1)] by (simp add: v)
  have j2: "js_le (medianRT (perColor (computeStats trs) c))
          (round1 (maxRT (perColor (computeStats trs) c)))"
    using round1_num_mono [OF ob(2)] by (simp add: v)
  have c1: "Min (set xs) - round1_slack (median64 xs) \<le> round1_num (median64 xs)"
    using ob(1) co by linarith
  have c2: "round1_num (median64 xs) \<le> Max (set xs) + round1_slack (median64 xs)"
    using ob(2) co by linarith
  have c3: "Min (set xs) - sum_slack xs - round1_slack (mean64 xs) \<le> round1_num (mean64 xs)"
    using mb(1) cm by linarith
  have c4: "round1_num (mean64 xs) \<le> Max (set xs) + sum_slack xs + round1_slack (mean64 xs)"
    using mb(2) cm by linarith
  show ?thesis
    by (intro conjI v double_sample_normal [OF assms(1,2)] mb ob cm co j1 j2 c1 c2 c3 c4)
qed

theorem computeStats_rt_bounds_witness:
  "rtSamplesByColor (computeStats floatLog) R = map Some [lat_4010_35, lat_4010_35, lat_4010_35]
   \<and> double_sample [lat_4010_35, lat_4010_35, lat_4010_35]
   \<and> minRT (perColor (computeStats floatLog) R) = Num lat_4010_35
   \<and> maxRT (perColor (computeStats floatLog) R) = Num lat_4010_35
   \<and> mean64 [lat_4010_35, lat_4010_35, lat_4010_35] = 8818852912902963 / 2199023255552
   \<and> avgRT (perColor (computeStats floatLog) R) = Num (8818962864065741 / 2199023255552)
   \<and> medianRT (perColor (computeStats floatLog) R) = Num (4409371480870093 / 1099511627776)
   \<and> \<not> js_le (avgRT (perColor (computeStats floatLog) R))
              (maxRT (perColor (computeStats floatLog) R))
   \<and> \<not> js_le (avgRT (perColor (computeStats floatLog) R))
              (round1 (maxRT (perColor (computeStats floatLog) R)))
   \<and> \<not> js_le (minRT (perColor (computeStats floatLog) R))
              (medianRT (perColor (computeStats floatLog) R))
   \<and> rtSamplesByColor (computeStats floatLog) Y = map Some [lat_250_26, lat_310_04]
   \<and> double_sample [lat_250_26, lat_310_04]
   \<and> minRT (perColor (computeStats floatLog) Y) = Num lat_250_26
   \<and> maxRT (perColor (computeStats floatLog) Y) = Num lat_310_04
   \<and> avgRT (perColor (computeStats floatLog) Y) = Num (4929330529645363 / 17592186044416)
   \<and> medianRT (perColor (computeStats floatLog) Y) = Num (4929330529645363 / 17592186044416)"
proof -
  have n: "[lat_4010_35, lat_4010_35, lat_4010_35] \<noteq> []" "[lat_250_26, lat_310_04] \<noteq> []"
    by simp_all
  note r = computeStats_rt_bounds [OF n(1) floatLog_double(2) floatLog_red]
  note y = computeStats_rt_bounds [OF n(2) floatLog_double(3) floatLog_yellow]
  have m: "Min (set [lat_4010_35, lat_4010_35, lat_4010_35]) = lat_4010_35"
    "Max (set [lat_4010_35, lat_4010_35, lat_4010_35]) = lat_4010_35"
    "Min (set [lat_250_26, lat_310_04]) = lat_250_26"
    "Max (set [lat_250_26, lat_310_04]) = lat_310_04"
    by (simp_all add: lat_250_26_def lat_310_04_def)
  have q: "round1_num lat_4010_35 = 4409371480870093 / 1099511627776" by code_simp
  have l: "\<not> 8818962864065741 / 2199023255552 \<le> lat_4010_35"
    "\<not> (8818962864065741 / 2199023255552 :: real) \<le> 4409371480870093 / 1099511627776"
    "\<not> lat_4010_35 \<le> 4409371480870093 / 1099511627776"
    by (simp_all add: lat_4010_35_def)
  have rv: "minRT (perColor (computeStats floatLog) R) = Num lat_4010_35"
    "maxRT (perColor (computeStats floatLog) R) = Num lat_4010_35"
    "avgRT (perColor (computeStats floatLog) R) = Num (8818962864065741 / 2199023255552)"
    "medianRT (perColor (computeStats floatLog) R) = Num (4409371480870093 / 1099511627776)"
  proof -
    show "minRT (perColor (computeStats floatLog) R) = Num lat_4010_35"
      using r [THEN conjunct1] by (simp only: m)
    show "maxRT (perColor (computeStats floatLog) R) = Num lat_4010_35"
      using r [THEN conjunct2, THEN conjunct1] by (simp only: m)
    show "avgRT (perColor (computeStats floatLog) R) = Num (8818962864065741 / 2199023255552)"
      using r [THEN conjunct2, THEN conjunct2, THEN conjunct1] by (simp only: floatLog_round1)
    show "medianRT (perColor (computeStats floatLog) R)
        = Num (4409371480870093 / 1099511627776)"
      using r [THEN conjunct2, THEN conjunct2, THEN conjunct2, THEN conjunct1]
      by (simp only: floatLog_round1)
  qed
  have yv: "minRT (perColor (computeStats floatLog) Y) = Num lat_250_26"
    "maxRT (perColor (computeStats floatLog) Y) = Num lat_310_04"
    "avgRT (perColor (computeStats floatLog) Y) = Num (4929330529645363 / 17592186044416)"
    "medianRT (perColor (computeStats floatLog) Y) = Num (4929330529645363 / 17592186044416)"
  proof -
    show "minRT (perColor (computeStats floatLog) Y) = Num lat_250_26"
      using y [THEN conjunct1] by (simp only: m)
    show "maxRT (perColor (computeStats floatLog) Y) = Num lat_310_04"
      using y [THEN conjunct2, THEN conjunct1] by (simp only: m)
    show "avgRT (perColor (computeStats floatLog) Y) = Num (4929330529645363 / 17592186044416)"
      using y [THEN conjunct2, THEN conjunct2, THEN conjunct1] by (simp only: floatLog_round1)
    show "medianRT (perColor (computeStats floatLog) Y)
        = Num (4929330529645363 / 17592186044416)"
      using y [THEN conjunct2, THEN conjunct2, THEN conjunct2, THEN conjunct1]
      by (simp only: floatLog_round1)
  qed
  show ?thesis
    using floatLog_red floatLog_yellow floatLog_double(2,3) floatLog_unrounded(1) l
    by (simp add: rv yv q)
qed

section \<open>Histogram bins\<close>

lemma binIndex_less: "0 < bins \<Longrightarrow> binIndex v bins < bins"
  by (simp add: binIndex_def Let_def) linarith

lemma bump_length:
  "length (fold (\<lambda>v cs. cs[binIndex v bins := cs ! binIndex v bins + 1]) rts cs) = length cs"
  by (induction rts arbitrary: cs) simp_all

lemma bump_nth:
  "i < length cs \<Longrightarrow>
     fold (\<lambda>v cs. cs[binIndex v bins := cs ! binIndex v bins + 1]) rts cs ! i
       = cs ! i + length (filter (\<lambda>v. binIndex v bins = i) rts)"
proof (induction rts arbitrary: cs)
  case Nil
  show ?case by simp
next
  case (Cons v rts)
  have "i < length (cs[binIndex v bins := cs ! binIndex v bins + 1])" using Cons.prems by simp
  from Cons.IH [OF this] show ?case
    using Cons.prems by (auto simp: nth_list_update)
qed

lemma sum_list_bump: "k < length cs \<Longrightarrow> sum_list (cs[k := cs ! k + 1]) = sum_list cs + (1::nat)"
  by (simp add: sum_list_update)

lemma bump_sum:
  "length cs = bins \<Longrightarrow> 0 < bins \<Longrightarrow>
     sum_list (fold (\<lambda>v cs. cs[binIndex v bins := cs ! binIndex v bins + 1]) rts cs)
       = sum_list cs + length rts"
proof (induction rts arbitrary: cs)
  case Nil
  show ?case by simp
next
  case (Cons v rts)
  let ?cs = "cs[binIndex v bins := cs ! binIndex v bins + 1]"
  have l: "length ?cs = bins" using Cons.prems by simp
  have k: "binIndex v bins < length cs" using binIndex_less [OF Cons.prems(2)] Cons.prems(1) by simp
  have "sum_list ?cs = sum_list cs + 1"
    using k by (rule sum_list_bump)
  then show ?case
    using Cons.IH [OF l Cons.prems(2)] by simp
qed

lemma fold_max_Max: "fold (\<lambda>c m. max m c) cs (m::nat) = Max (insert m (set cs))"
proof (induction cs arbitrary: m)
  case Nil
  show ?case by simp
next
  case (Cons c cs)
  have "Max (insert (max m c) (set cs)) = Max (insert m (insert c (set cs)))"
    by (cases "cs = []") (simp_all add: max.assoc)
  with Cons show ?case by simp
qed

lemma histogram_counts:
  "counts (histogram rts bins)
     = fold (\<lambda>v cs. cs[binIndex v bins := cs ! binIndex v bins + 1]) rts (replicate bins 0)"
  by (simp add: histogram_def Let_def)

lemma histogram_edges: "edges (histogram rts 10) = [0, 500, 1000, 1500, 2000, 2500, 3000, 3500, 4000, 4500, 5000]"
  by (simp add: histogram_def Let_def MAX_RT_MS_def upt_rec)

lemma binIndex_max: "binIndex MAX_RT_MS 10 = 9"
  by (simp add: binIndex_def Let_def MAX_RT_MS_def)

lemma binIndex_encloses:
  assumes "0 \<le> v" "v < MAX_RT_MS"
  shows "real (binIndex v 10) * 500 \<le> v" "v < real (binIndex v 10 + 1) * 500"
proof -
  have f: "0 \<le> \<lfloor>v / 500\<rfloor>" "\<lfloor>v / 500\<rfloor> < 10"
    using assms by (simp_all add: MAX_RT_MS_def floor_less_iff)
  then have b: "binIndex v 10 = nat \<lfloor>v / 500\<rfloor>"
    by (simp add: binIndex_def Let_def MAX_RT_MS_def)
  have "real_of_int \<lfloor>v / 500\<rfloor> \<le> v / 500" "v / 500 < real_of_int \<lfloor>v / 500\<rfloor> + 1" by linarith+
  then show "real (binIndex v 10) * 500 \<le> v" "v < real (binIndex v 10 + 1) * 500"
    using f by (simp_all add: b field_simps)
qed

lemma binIndex_outside: "v < 0 \<Longrightarrow> binIndex v 10 = 0" "MAX_RT_MS \<le> v \<Longrightarrow> binIndex v 10 = 9"
proof -
  show "v < 0 \<Longrightarrow> binIndex v 10 = 0"
    by (simp add: binIndex_def Let_def MAX_RT_MS_def)
  assume "MAX_RT_MS \<le> v"
  then have "10 \<le> \<lfloor>v / 500\<rfloor>" by (simp add: MAX_RT_MS_def le_floor_iff)
  then show "binIndex v 10 = 9" by (simp add: binIndex_def Let_def MAX_RT_MS_def)
qed

text \<open>
  Claim C4. \<^verbatim>\<open>histogram(rt, 10)\<close> has 10 counts that add up to the number of samples;
  every sample is counted in the bin \<open>binIndex\<close> gives it, which is below 10; a sample in
  \<open>[0, MAX_RT_MS)\<close> lies between the edges of its bin, a sample at or above
  \<open>MAX_RT_MS\<close> goes to the last bin and a negative one to the first; the edges are the 11
  multiples of 500 from 0 to 5000; \<open>max_count\<close> is the largest count, or 1 if that is
  larger.
\<close>

theorem histogram_bins:
  "length (counts (histogram rts 10)) = 10
   \<and> sum_list (counts (histogram rts 10)) = length rts
   \<and> (\<forall>v. binIndex v 10 < 10)
   \<and> (\<forall>i < 10. counts (histogram rts 10) ! i = length (filter (\<lambda>v. binIndex v 10 = i) rts))
   \<and> binIndex MAX_RT_MS 10 = 9
   \<and> (\<forall>v. MAX_RT_MS \<le> v \<longrightarrow> binIndex v 10 = 9)
   \<and> (\<forall>v. v < 0 \<longrightarrow> binIndex v 10 = 0)
   \<and> (\<forall>v. 0 \<le> v \<and> v < MAX_RT_MS \<longrightarrow>
          real (binIndex v 10) * 500 \<le> v \<and> v < real (binIndex v 10 + 1) * 500)
   \<and> edges (histogram rts 10) = map (\<lambda>i. real i * (MAX_RT_MS / 10)) [0 ..< 11]
   \<and> edges (histogram rts 10)
       = [0, 500, 1000, 1500, 2000, 2500, 3000, 3500, 4000, 4500, 5000]
   \<and> max_count (histogram rts 10) = Max (insert 1 (set (counts (histogram rts 10))))"
proof -
  have l: "length (counts (histogram rts 10)) = 10"
    unfolding histogram_counts by (simp only: bump_length length_replicate)
  have "sum_list (counts (histogram rts 10)) = sum_list (replicate 10 (0::nat)) + length rts"
    unfolding histogram_counts by (rule bump_sum) simp_all
  then have s: "sum_list (counts (histogram rts 10)) = length rts" by simp
  have n: "\<forall>i < 10. counts (histogram rts 10) ! i = length (filter (\<lambda>v. binIndex v 10 = i) rts)"
  proof (intro allI impI)
    fix i :: nat
    assume i: "i < 10"
    then have "i < length (replicate 10 (0::nat))" by simp
    from bump_nth [OF this, of 10 rts]
    show "counts (histogram rts 10) ! i = length (filter (\<lambda>v. binIndex v 10 = i) rts)"
      using i by (simp only: histogram_counts nth_replicate add_0)
  qed
  have e: "edges (histogram rts 10) = map (\<lambda>i. real i * (MAX_RT_MS / 10)) [0 ..< 11]"
    by (simp add: histogram_def Let_def)
  have m: "max_count (histogram rts 10) = Max (insert 1 (set (counts (histogram rts 10))))"
    by (simp add: histogram_def Let_def fold_max_Max)
  show ?thesis
    using l s n e m binIndex_less [of 10] binIndex_max binIndex_outside binIndex_encloses
      histogram_edges [of rts]
    by simp
qed

theorem histogram_bins_witness:
  "counts (histogram [0, 499, 500, 5000, 7000, -3] 10) = [3, 1, 0, 0, 0, 0, 0, 0, 0, 2]
   \<and> sum_list (counts (histogram [0, 499, 500, 5000, 7000, -3] 10)) = 6
   \<and> max_count (histogram [0, 499, 500, 5000, 7000, -3] 10) = 3"
proof -
  have c: "counts (histogram [0, 499, 500, 5000, 7000, -3] 10) = [3, 1, 0, 0, 0, 0, 0, 0, 0, 2]"
    by code_simp
  show ?thesis
    using histogram_bins [of "[0, 499, 500, 5000, 7000, -3]"] c by simp
qed

section \<open>Stimulus selection and persisted history\<close>

lemma floor_unit_2: "0 \<le> r \<Longrightarrow> r < 1 \<Longrightarrow> \<lfloor>r * 2\<rfloor> = 0 \<or> \<lfloor>r * 2\<rfloor> = (1::int)" for r :: real
  by linarith

lemma floor_unit_3:
  "0 \<le> r \<Longrightarrow> r < 1 \<Longrightarrow> \<lfloor>r * 3\<rfloor> = 0 \<or> \<lfloor>r * 3\<rfloor> = 1 \<or> \<lfloor>r * 3\<rfloor> = (2::int)" for r :: real
  by linarith

lemma pick_excludes:
  assumes "0 \<le> rnd" "rnd < 1"
  shows "\<exists>c. pickNextColor (Some l) rnd = Some c \<and> c \<noteq> l"
  using assms floor_unit_2 [OF assms] by (cases l) (auto simp: pickNextColor_def Let_def)

lemma pick_first:
  assumes "0 \<le> rnd" "rnd < 1"
  shows "\<exists>c. pickNextColor None rnd = Some c"
  using assms floor_unit_3 [OF assms] by (auto simp: pickNextColor_def Let_def)

lemma pick_first_any: "\<exists>r. 0 \<le> r \<and> r < 1 \<and> pickNextColor None r = Some c"
proof (cases c)
  case R
  have "pickNextColor None 0 = Some R" by (simp add: pickNextColor_def)
  then show ?thesis using R by (intro exI [of _ 0]) simp
next
  case Y
  have "pickNextColor None (1 / 2) = Some Y" by (simp add: pickNextColor_def)
  then show ?thesis using Y by (intro exI [of _ "1 / 2"]) simp
next
  case G
  have "pickNextColor None (3 / 4) = Some G" by (simp add: pickNextColor_def)
  then show ?thesis using G by (intro exI [of _ "3 / 4"]) simp
qed

lemma pick_other_any:
  assumes "c \<noteq> l"
  shows "\<exists>r. 0 \<le> r \<and> r < 1 \<and> pickNextColor (Some l) r = Some c"
proof -
  have "pickNextColor (Some l) 0 = Some c \<or> pickNextColor (Some l) (1 / 2) = Some c"
    using assms by (cases l; cases c) (simp_all add: pickNextColor_def)
  then show ?thesis
  proof
    assume "pickNextColor (Some l) 0 = Some c"
    then show ?thesis by (intro exI [of _ 0]) simp
  next
    assume "pickNextColor (Some l) (1 / 2) = Some c"
    then show ?thesis by (intro exI [of _ "1 / 2"]) simp
  qed
qed

lemma show_heap:
  assumes "now < testEndsAt s" "pickNextColor (lastColor s) rnd = Some c"
  shows "heap (showNextStimulus now rnd s) = heap s @
           [\<lparr>color = c, onset = now, respondedAt = None, rt = None, correct = False,
             premature = flagPrematureForNext s, wrongKey = None, missed = None\<rparr>]"
    and "lastColor (showNextStimulus now rnd s) = Some c"
    and "phase (showNextStimulus now rnd s) = stimulus_on"
    and "currentTrial (showNextStimulus now rnd s) = Some (length (heap s))"
    and "trials (showNextStimulus now rnd s) = trials s @ [length (heap s)]"
  using assms by (simp_all add: showNextStimulus_def Let_def setTimeout_def)

lemma pop_while_take: "pop_while arr = take 5 arr"
proof (induction arr rule: pop_while.induct)
  case (1 arr)
  show ?case
  proof (cases "length arr > 5")
    case True
    then have "pop_while arr = take 5 (butlast arr)"
      using 1 by (simp add: pop_while.simps [of arr])
    also have "\<dots> = take 5 arr"
    proof -
      have "min 5 (length arr - 1) = 5" using True by simp
      then show ?thesis by (simp add: butlast_conv_take)
    qed
    finally show ?thesis .
  next
    case False
    then show ?thesis by (simp add: pop_while.simps [of arr])
  qed
qed

lemma persist_writes:
  "persistTop5 parse stringify s (Holds v)
     = Inr (Holds (Some (stringify (take 5 (s # loadTop5 parse (Holds v))))))"
  by (simp add: persistTop5_def Let_def pop_while_take)

text \<open>
  Claim C9, as stated, fails: \<^verbatim>\<open>loadTop5\<close> returns whatever array the store holds; a
  store whose text is an array of six entries is read back with six entries.
\<close>

theorem loadTop5_unbounded_counterexample:
  "\<not> length (loadTop5 demo_parse (Holds (Some ''[1,2,3,4,5,6]''))) \<le> 5"
  by (simp add: loadTop5_def demo_parse_def)

text \<open>
  Claim C9, amended. \<^verbatim>\<open>loadTop5\<close> never raises: it returns the empty list when the storage
  throws, when nothing or the empty text is stored, when the text does not parse and when
  it parses to something that is not an array; otherwise it returns the stored array as
  it is. \<^verbatim>\<open>persistTop5\<close> on a working storage replaces the stored text by the text of the
  new summary prepended to what \<^verbatim>\<open>loadTop5\<close> returned, cut to 5 entries; where the
  platform reads that text back as written, the next \<^verbatim>\<open>loadTop5\<close> returns that list,
  which has at most 5 entries and the new summary first.
\<close>

theorem history_store:
  "loadTop5 parse Broken = []
   \<and> loadTop5 parse (Holds None) = []
   \<and> loadTop5 parse (Holds (Some [])) = []
   \<and> (parse raw = None \<longrightarrow> loadTop5 parse (Holds (Some raw)) = [])
   \<and> (parse raw = Some JOther \<longrightarrow> loadTop5 parse (Holds (Some raw)) = [])
   \<and> (raw \<noteq> [] \<and> parse raw = Some (JArray arr) \<longrightarrow> loadTop5 parse (Holds (Some raw)) = arr)
   \<and> persistTop5 parse stringify s (Holds v)
       = Inr (Holds (Some (stringify (take 5 (s # loadTop5 parse (Holds v))))))
   \<and> persistTop5 parse stringify s Broken = Inl StorageError
   \<and> (stringify (take 5 (s # loadTop5 parse (Holds v))) \<noteq> []
        \<and> parse (stringify (take 5 (s # loadTop5 parse (Holds v))))
            = Some (JArray (take 5 (s # loadTop5 parse (Holds v))))
      \<longrightarrow> (\<exists>st'. persistTop5 parse stringify s (Holds v) = Inr st'
             \<and> loadTop5 parse st' = take 5 (s # loadTop5 parse (Holds v))
             \<and> length (loadTop5 parse st') \<le> 5
             \<and> hd (loadTop5 parse st') = s))"
proof -
  have a: "loadTop5 parse Broken = []" "loadTop5 parse (Holds None) = []"
    "loadTop5 parse (Holds (Some [])) = []"
    by (simp_all add: loadTop5_def)
  have b: "parse raw = None \<longrightarrow> loadTop5 parse (Holds (Some raw)) = []"
    "parse raw = Some JOther \<longrightarrow> loadTop5 parse (Holds (Some raw)) = []"
    "raw \<noteq> [] \<and> parse raw = Some (JArray arr) \<longrightarrow> loadTop5 parse (Holds (Some raw)) = arr"
    by (simp_all add: loadTop5_def)
  have c: "persistTop5 parse stringify s Broken = Inl StorageError"
    by (simp add: persistTop5_def Let_def)
  let ?new = "take 5 (s # loadTop5 parse (Holds v))"
  have d: "stringify ?new \<noteq> [] \<and> parse (stringify ?new) = Some (JArray ?new)
      \<longrightarrow> (\<exists>st'. persistTop5 parse stringify s (Holds v) = Inr st'
             \<and> loadTop5 parse st' = ?new \<and> length (loadTop5 parse st') \<le> 5
             \<and> hd (loadTop5 parse st') = s)"
  proof
    assume h: "stringify ?new \<noteq> [] \<and> parse (stringify ?new) = Some (JArray ?new)"
    then have l: "loadTop5 parse (Holds (Some (stringify ?new))) = ?new"
      by (simp add: loadTop5_def)
    have "length ?new \<le> 5" "hd ?new = s" by simp_all
    then show "\<exists>st'. persistTop5 parse stringify s (Holds v) = Inr st'
             \<and> loadTop5 parse st' = ?new \<and> length (loadTop5 parse st') \<le> 5
             \<and> hd (loadTop5 parse st') = s"
      using l by (simp add: persist_writes)
  qed
  show ?thesis
    using a b c d persist_writes [of parse stringify s v] by simp
qed

theorem history_store_witness:
  "persistTop5 demo_parse demo_stringify 7 (Holds (Some ''[1,2,3,4,5,6]''))
     = Inr (Holds (Some ''[7,1,2,3,4]''))
   \<and> loadTop5 demo_parse (Holds (Some ''[7,1,2,3,4]'')) = [7, 1, 2, 3, 4]
   \<and> loadTop5 demo_parse (Holds (Some ''{}'')) = []
   \<and> loadTop5 demo_parse (Holds (Some ''[1,2''))= []"
proof -
  have l: "loadTop5 demo_parse (Holds (Some ''[1,2,3,4,5,6]'')) = [1, 2, 3, 4, 5, 6]"
    "loadTop5 demo_parse (Holds (Some ''[7,1,2,3,4]'')) = [7, 1, 2, 3, 4]"
    "demo_parse ''{}'' = Some JOther" "demo_parse ''[1,2'' = None"
    by (simp_all add: loadTop5_def demo_parse_def)
  have s: "demo_stringify [7, 1, 2, 3, 4] = ''[7,1,2,3,4]''" by (simp add: demo_stringify_def)
  show ?thesis
    using history_store [of demo_parse "''{}''" "[]" demo_stringify 7 "Some ''[1,2,3,4,5,6]''"]
      history_store [of demo_parse "''[1,2''" "[]" demo_stringify 7 "Some ''[1,2,3,4,5,6]''"]
      l s
    by simp
qed

section \<open>What the small operations leave unchanged\<close>

lemma clearTimeout_fields [simp]:
  "phase (clearTimeout i s) = phase s" "currentTrial (clearTimeout i s) = currentTrial s"
  "heap (clearTimeout i s) = heap s" "trials (clearTimeout i s) = trials s"
  "lIsDown (clearTimeout i s) = lIsDown s" "lDownAt (clearTimeout i s) = lDownAt s"
  "lGateTimer (clearTimeout i s) = lGateTimer s" "timerId (clearTimeout i s) = timerId s"
  "timerSeq (clearTimeout i s) = timerSeq s" "testEndsAt (clearTimeout i s) = testEndsAt s"
  "lastColor (clearTimeout i s) = lastColor s" "lastResponseAt (clearTimeout i s) = lastResponseAt s"
  "hasFocus (clearTimeout i s) = hasFocus s"
  "flagPrematureForNext (clearTimeout i s) = flagPrematureForNext s"
  "timers (clearTimeout i s) = filter (\<lambda>e. fst e \<noteq> i) (timers s)"
  by (simp_all add: clearTimeout_def)

lemma setTimeout_fields [simp]:
  "phase (snd (setTimeout cb d now s)) = phase s"
  "currentTrial (snd (setTimeout cb d now s)) = currentTrial s"
  "heap (snd (setTimeout cb d now s)) = heap s" "trials (snd (setTimeout cb d now s)) = trials s"
  "lIsDown (snd (setTimeout cb d now s)) = lIsDown s"
  "lDownAt (snd (setTimeout cb d now s)) = lDownAt s"
  "lGateTimer (snd (setTimeout cb d now s)) = lGateTimer s"
  "timerId (snd (setTimeout cb d now s)) = timerId s"
  "timerSeq (snd (setTimeout cb d now s)) = Suc (timerSeq s)"
  "testEndsAt (snd (setTimeout cb d now s)) = testEndsAt s"
  "lastColor (snd (setTimeout cb d now s)) = lastColor s"
  "lastResponseAt (snd (setTimeout cb d now s)) = lastResponseAt s"
  "hasFocus (snd (setTimeout cb d now s)) = hasFocus s"
  "flagPrematureForNext (snd (setTimeout cb d now s)) = flagPrematureForNext s"
  "timers (snd (setTimeout cb d now s)) = timers s @ [(Suc (timerSeq s), now + d, cb)]"
  "fst (setTimeout cb d now s) = Suc (timerSeq s)"
  by (simp_all add: setTimeout_def)

lemma clearTimer_fields [simp]:
  "phase (clearTimer s) = phase s" "currentTrial (clearTimer s) = currentTrial s"
  "heap (clearTimer s) = heap s" "trials (clearTimer s) = trials s"
  "lIsDown (clearTimer s) = lIsDown s" "lDownAt (clearTimer s) = lDownAt s"
  "lGateTimer (clearTimer s) = lGateTimer s"
  "timerSeq (clearTimer s) = timerSeq s" "testEndsAt (clearTimer s) = testEndsAt s"
  "lastColor (clearTimer s) = lastColor s" "lastResponseAt (clearTimer s) = lastResponseAt s"
  "hasFocus (clearTimer s) = hasFocus s"
  "flagPrematureForNext (clearTimer s) = flagPrematureForNext s"
  by (simp_all add: clearTimer_def split: option.splits)

lemma endTest_fields [simp]:
  "currentTrial (endTest s) = currentTrial s"
  "heap (endTest s) = heap s" "trials (endTest s) = trials s"
  "lIsDown (endTest s) = lIsDown s" "lDownAt (endTest s) = lDownAt s"
  "lGateTimer (endTest s) = lGateTimer s"
  "timerSeq (endTest s) = timerSeq s" "testEndsAt (endTest s) = testEndsAt s"
  "lastColor (endTest s) = lastColor s" "lastResponseAt (endTest s) = lastResponseAt s"
  "hasFocus (endTest s) = hasFocus s"
  "flagPrematureForNext (endTest s) = flagPrematureForNext s"
  "phase (endTest s) = finished"
  by (simp_all add: endTest_def)

lemma tick_fields [simp]:
  "currentTrial (tick t s) = currentTrial s"
  "heap (tick t s) = heap s" "trials (tick t s) = trials s"
  "lIsDown (tick t s) = lIsDown s" "lDownAt (tick t s) = lDownAt s"
  "lGateTimer (tick t s) = lGateTimer s" "testEndsAt (tick t s) = testEndsAt s"
  "lastColor (tick t s) = lastColor s" "lastResponseAt (tick t s) = lastResponseAt s"
  "hasFocus (tick t s) = hasFocus s"
  "flagPrematureForNext (tick t s) = flagPrematureForNext s"
  "phase (tick t s) = stimulus_on \<longleftrightarrow> phase s = stimulus_on"
  by (simp_all add: tick_def Let_def)

section \<open>The active trial in reachable states\<close>

lemma trial_inv_frame:
  "currentTrial s' = currentTrial s \<Longrightarrow> heap s' = heap s
     \<Longrightarrow> (phase s' = stimulus_on \<longrightarrow> phase s = stimulus_on) \<Longrightarrow> trial_inv s \<Longrightarrow> trial_inv s'"
  by (auto simp: trial_inv_def split: option.splits)

lemma scheduleStimulus_fields [simp]:
  "phase (scheduleStimulusAfterLGate now s) = phase s"
  "currentTrial (scheduleStimulusAfterLGate now s) = currentTrial s"
  "heap (scheduleStimulusAfterLGate now s) = heap s"
  "trials (scheduleStimulusAfterLGate now s) = trials s"
  "lIsDown (scheduleStimulusAfterLGate now s) = lIsDown s"
  "lDownAt (scheduleStimulusAfterLGate now s) = lDownAt s"
  "timerId (scheduleStimulusAfterLGate now s) = timerId s"
  "testEndsAt (scheduleStimulusAfterLGate now s) = testEndsAt s"
  "lastColor (scheduleStimulusAfterLGate now s) = lastColor s"
  "lastResponseAt (scheduleStimulusAfterLGate now s) = lastResponseAt s"
  "hasFocus (scheduleStimulusAfterLGate now s) = hasFocus s"
  "flagPrematureForNext (scheduleStimulusAfterLGate now s) = flagPrematureForNext s"
  by (simp_all add: scheduleStimulusAfterLGate_def Let_def setTimeout_def split: option.splits)

lemma trial_inv_keydown: "trial_inv s \<Longrightarrow> trial_inv (handleKeyDown k now s)"
  unfolding handleKeyDown_def Let_def
  by (auto simp: trial_inv_def split: option.splits)

lemma trial_inv_keyup: "trial_inv s \<Longrightarrow> trial_inv (handleKeyUp k now s)"
  unfolding handleKeyUp_def Let_def
  by (auto simp: trial_inv_def split: option.splits)

lemma trial_inv_show: "trial_inv s \<Longrightarrow> trial_inv (showNextStimulus now rnd s)"
  unfolding showNextStimulus_def Let_def
  by (auto simp: trial_inv_def nth_append split: option.splits)

lemma trial_inv_deadline: "trial_inv s \<Longrightarrow> trial_inv (deadlineTimeout a s)"
  unfolding deadlineTimeout_def
  by (auto simp: trial_inv_def split: option.splits)

lemma trial_inv_fire: "trial_inv s \<Longrightarrow> trial_inv (fire i now rnd s)"
proof -
  assume a: "trial_inv s"
  have c: "trial_inv (clearTimeout i s)" by (rule trial_inv_frame [OF _ _ _ a]) simp_all
  have m: "trial_inv (s\<lparr>timers := ts\<rparr>)" for ts by (rule trial_inv_frame [OF _ _ _ a]) simp_all
  have t: "trial_inv (tick now (s\<lparr>timers := ts\<rparr>))" for ts
    by (rule trial_inv_frame [OF _ _ _ m [of ts]]) simp_all
  have e: "trial_inv (endTest (clearTimeout i s))"
    by (rule trial_inv_frame [OF _ _ _ c]) simp_all
  show ?thesis
    using a c t e trial_inv_deadline [OF c] trial_inv_show [OF c]
    by (auto simp: fire_def gateTimeout_def split: option.splits Callback.splits)
qed

lemma trial_inv_start: "trial_inv s \<Longrightarrow> trial_inv (startTest now s)"
  unfolding startTest_def Let_def
  by (auto simp: trial_inv_def setTimeout_def split: option.splits)

lemma trial_inv_refresh: "trial_inv s \<Longrightarrow> trial_inv (refreshTest s)"
  unfolding refreshTest_def Let_def
  by (auto simp: trial_inv_def split: option.splits)

lemma trial_inv_focus: "trial_inv s \<Longrightarrow> trial_inv (s\<lparr>hasFocus := b\<rparr>)"
  by (erule trial_inv_frame [rotated 3]) simp_all

lemma trial_inv_step: "trial_inv s \<Longrightarrow> trial_inv (step e s)"
  by (cases e)
    (simp_all add: trial_inv_keydown trial_inv_keyup trial_inv_fire trial_inv_start
      trial_inv_refresh trial_inv_focus)

lemma trial_inv_run: "trial_inv s \<Longrightarrow> trial_inv (run es s)"
  unfolding run_def by (induction es arbitrary: s) (simp_all add: trial_inv_step)

lemma trial_inv_init: "trial_inv init"
  by (simp add: trial_inv_def init_def)

section \<open>The previous category in reachable states\<close>

lemma session_frame:
  "trials s' = trials s \<Longrightarrow> lastColor s' = lastColor s
     \<Longrightarrow> (phase s' = idle \<longrightarrow> phase s = idle) \<Longrightarrow> session_inv s \<Longrightarrow> session_inv s'"
  by (simp add: session_inv_def)

lemma tick_idle: "phase (tick t s) = idle \<longrightarrow> phase s = idle"
  by (simp add: tick_def Let_def)

lemma session_keydown: "session_inv s \<Longrightarrow> session_inv (handleKeyDown k now s)"
  unfolding handleKeyDown_def Let_def
  by (auto simp: session_inv_def split: option.splits)

lemma session_keyup: "session_inv s \<Longrightarrow> session_inv (handleKeyUp k now s)"
  unfolding handleKeyUp_def Let_def
  by (auto simp: session_inv_def split: option.splits)

lemma session_show: "session_inv s \<Longrightarrow> session_inv (showNextStimulus now rnd s)"
  unfolding showNextStimulus_def Let_def
  by (auto simp: session_inv_def split: option.splits)

lemma session_deadline: "session_inv s \<Longrightarrow> session_inv (deadlineTimeout a s)"
  unfolding deadlineTimeout_def by (auto simp: session_inv_def)

lemma session_fire: "session_inv s \<Longrightarrow> session_inv (fire i now rnd s)"
proof -
  assume a: "session_inv s"
  have c: "session_inv (clearTimeout i s)" by (rule session_frame [OF _ _ _ a]) simp_all
  have m: "session_inv (s\<lparr>timers := ts\<rparr>)" for ts by (rule session_frame [OF _ _ _ a]) simp_all
  have t: "session_inv (tick now (s\<lparr>timers := ts\<rparr>))" for ts
    by (rule session_frame [OF _ _ _ m [of ts]]) (simp_all add: tick_idle)
  have e: "session_inv (endTest (clearTimeout i s))"
    by (rule session_frame [OF _ _ _ c]) simp_all
  show ?thesis
    using a c t e session_deadline [OF c] session_show [OF c]
    by (auto simp: fire_def gateTimeout_def split: option.splits Callback.splits)
qed

lemma session_start: "session_inv s \<Longrightarrow> session_inv (startTest now s)"
  unfolding startTest_def Let_def
  by (auto simp: session_inv_def setTimeout_def)

lemma session_refresh: "session_inv s \<Longrightarrow> session_inv (refreshTest s)"
  unfolding refreshTest_def Let_def
  by (auto simp: session_inv_def split: option.splits)

lemma session_focus: "session_inv s \<Longrightarrow> session_inv (s\<lparr>hasFocus := b\<rparr>)"
  by (simp add: session_inv_def)

lemma session_step: "session_inv s \<Longrightarrow> session_inv (step e s)"
  by (cases e)
    (simp_all add: session_keydown session_keyup session_fire session_start session_refresh
      session_focus)

lemma session_run: "session_inv s \<Longrightarrow> session_inv (run es s)"
  unfolding run_def by (induction es arbitrary: s) (simp_all add: session_step)

lemma session_init: "session_inv init"
  by (simp add: session_inv_def init_def)

lemma session_reachable: "(lastColor (run es init) = None) = (trials (run es init) = [])"
  using session_run [OF session_init, of es] by (simp add: session_inv_def)

text \<open>
  Claim C8. With a previous category \<open>l\<close>, \<^verbatim>\<open>pickNextColor\<close> returns a category
  different from \<open>l\<close> for every draw in \<open>[0, 1)\<close>, and each of the two others for some
  draw; without a previous category it returns a category for every draw and each of the
  three for some draw. The trial \<^verbatim>\<open>showNextStimulus\<close> creates carries that category. In every
  reachable state a previous category exists exactly when the trial log of the session is
  not empty.
\<close>

theorem no_immediate_repeat:
  assumes "0 \<le> rnd" "rnd < 1"
  shows "(\<exists>c. pickNextColor (Some l) rnd = Some c \<and> c \<noteq> l)
     \<and> (\<exists>c. pickNextColor None rnd = Some c)
     \<and> (\<forall>c. \<exists>r. 0 \<le> r \<and> r < 1 \<and> pickNextColor None r = Some c)
     \<and> (\<forall>c. c \<noteq> l \<longrightarrow> (\<exists>r. 0 \<le> r \<and> r < 1 \<and> pickNextColor (Some l) r = Some c))
     \<and> (\<forall>s now. lastColor s = Some l \<and> now < testEndsAt s \<longrightarrow>
          (\<exists>c. c \<noteq> l \<and> lastColor (showNextStimulus now rnd s) = Some c
             \<and> color (last (heap (showNextStimulus now rnd s))) = c
             \<and> currentTrial (showNextStimulus now rnd s) = Some (length (heap s))))
     \<and> (lastColor (run es init) = None) = (trials (run es init) = [])"
proof -
  have "\<exists>c. c \<noteq> l \<and> lastColor (showNextStimulus now rnd s) = Some c
             \<and> color (last (heap (showNextStimulus now rnd s))) = c
             \<and> currentTrial (showNextStimulus now rnd s) = Some (length (heap s))"
    if h: "lastColor s = Some l \<and> now < testEndsAt s" for s now
  proof -
    obtain c where c: "pickNextColor (Some l) rnd = Some c" "c \<noteq> l"
      using pick_excludes [OF assms] by blast
    have p: "pickNextColor (lastColor s) rnd = Some c" using c h by simp
    show ?thesis
      using c(2) show_heap(1,2,4) [OF _ p, of now] h by (intro exI [of _ c]) simp
  qed
  then show ?thesis
    using pick_excludes [OF assms] pick_first [OF assms] pick_first_any pick_other_any
      session_reachable [of es]
    by blast
qed

theorem no_immediate_repeat_witness:
  "(0::real) \<le> 99 / 100 \<and> (99::real) / 100 < 1 \<and> pickNextColor (Some G) (99 / 100) = Some Y
   \<and> pickNextColor (Some Y) (99 / 100) = Some G"
proof -
  have h: "(0::real) \<le> 99 / 100" "(99::real) / 100 < 1" by simp_all
  have v: "pickNextColor (Some G) (99 / 100) = Some Y" "pickNextColor (Some Y) (99 / 100) = Some G"
    by (simp_all add: pickNextColor_def)
  show ?thesis
    using no_immediate_repeat [OF h, where l = G] v by simp
qed

section \<open>The response deadline\<close>

lemma deadline_noop_iff:
  "deadlineTimeout a s = s \<longleftrightarrow>
     \<not> (phase s = stimulus_on \<and> currentTrial s = Some a \<and> falsy_time (respondedAt (heap s ! a)))"
proof (cases "phase s = stimulus_on \<and> currentTrial s = Some a \<and> falsy_time (respondedAt (heap s ! a))")
  case True
  then have p: "phase (deadlineTimeout a s) = awaiting_L" by (simp add: deadlineTimeout_def)
  have "deadlineTimeout a s \<noteq> s"
  proof
    assume "deadlineTimeout a s = s"
    then have "phase (deadlineTimeout a s) = phase s" by simp
    with p True show False by simp
  qed
  with True show ?thesis by simp
next
  case False
  then have "deadlineTimeout a s = s" unfolding deadlineTimeout_def by (simp only: if_False)
  with False show ?thesis by simp
qed

lemma deadline_fires:
  "phase s = stimulus_on \<and> currentTrial s = Some a \<and> falsy_time (respondedAt (heap s ! a)) \<Longrightarrow>
     deadlineTimeout a s
       = s\<lparr>heap := (heap s)[a := (heap s ! a)\<lparr>missed := Some True\<rparr>], phase := awaiting_L\<rparr>"
  by (simp add: deadlineTimeout_def)

text \<open>
  Claim C7. In every reachable state the deadline callback armed for trial \<open>a\<close> changes
  the state only if the phase is \<open>stimulus_on\<close>, the active trial is \<open>a\<close> itself and
  \<open>a\<close> carries no response; it then marks \<open>a\<close> as missed and returns to
  \<open>awaiting_L\<close>. For a superseded trial, after a response, or in any other phase it
  returns the state as it is; the timer event then only removes the fired timer from the
  queue, and the trial log, the trial objects, the active trial and the phase are the same.
\<close>

theorem deadline_guard:
  assumes "s = run es init"
  shows "(deadlineTimeout a s \<noteq> s \<longrightarrow>
            phase s = stimulus_on \<and> currentTrial s = Some a \<and> respondedAt (heap s ! a) = None)
     \<and> (phase s = stimulus_on \<and> currentTrial s = Some a \<longrightarrow>
            deadlineTimeout a s
              = s\<lparr>heap := (heap s)[a := (heap s ! a)\<lparr>missed := Some True\<rparr>], phase := awaiting_L\<rparr>
          \<and> missed (heap (deadlineTimeout a s) ! a) = Some True)
     \<and> (respondedAt (heap s ! a) \<noteq> None \<longrightarrow> deadlineTimeout a s = s)
     \<and> (currentTrial s \<noteq> Some a \<longrightarrow> deadlineTimeout a s = s)
     \<and> (phase s \<noteq> stimulus_on \<longrightarrow> deadlineTimeout a s = s)
     \<and> (find (\<lambda>e. fst e = i) (timers s) = Some (i, due, DeadlineCb a) \<longrightarrow>
          step (TimerFires i now rnd) s
            = (if now < due then s else deadlineTimeout a (clearTimeout i s))
        \<and> (deadlineTimeout a s = s \<longrightarrow>
             trials (step (TimerFires i now rnd) s) = trials s
           \<and> heap (step (TimerFires i now rnd) s) = heap s
           \<and> currentTrial (step (TimerFires i now rnd) s) = currentTrial s
           \<and> phase (step (TimerFires i now rnd) s) = phase s))"
proof -
  let ?guard = "phase s = stimulus_on \<and> currentTrial s = Some a \<and> falsy_time (respondedAt (heap s ! a))"
  have inv: "trial_inv s" using assms trial_inv_run [OF trial_inv_init] by simp
  have g: "phase s = stimulus_on \<and> currentTrial s = Some a \<longrightarrow>
      a < length (heap s) \<and> respondedAt (heap s ! a) = None"
    using inv by (auto simp: trial_inv_def)
  have 1: "deadlineTimeout a s \<noteq> s \<longrightarrow>
            phase s = stimulus_on \<and> currentTrial s = Some a \<and> respondedAt (heap s ! a) = None"
    using g by (simp add: deadline_noop_iff)
  have 2: "phase s = stimulus_on \<and> currentTrial s = Some a \<longrightarrow>
            deadlineTimeout a s
              = s\<lparr>heap := (heap s)[a := (heap s ! a)\<lparr>missed := Some True\<rparr>], phase := awaiting_L\<rparr>
          \<and> missed (heap (deadlineTimeout a s) ! a) = Some True"
  proof
    assume h: "phase s = stimulus_on \<and> currentTrial s = Some a"
    then have gd: ?guard and l: "a < length (heap s)" using g by simp_all
    show "deadlineTimeout a s
              = s\<lparr>heap := (heap s)[a := (heap s ! a)\<lparr>missed := Some True\<rparr>], phase := awaiting_L\<rparr>
          \<and> missed (heap (deadlineTimeout a s) ! a) = Some True"
      using l by (simp add: deadline_fires [OF gd])
  qed
  have 3: "respondedAt (heap s ! a) \<noteq> None \<longrightarrow> deadlineTimeout a s = s"
    using g by (auto simp: deadline_noop_iff)
  have 4: "currentTrial s \<noteq> Some a \<longrightarrow> deadlineTimeout a s = s"
    "phase s \<noteq> stimulus_on \<longrightarrow> deadlineTimeout a s = s"
    by (simp_all add: deadline_noop_iff)
  have 5: "find (\<lambda>e. fst e = i) (timers s) = Some (i, due, DeadlineCb a) \<longrightarrow>
          step (TimerFires i now rnd) s
            = (if now < due then s else deadlineTimeout a (clearTimeout i s))"
    by (simp add: fire_def)
  have 6: "deadlineTimeout a (clearTimeout i s) = clearTimeout i s" if "deadlineTimeout a s = s"
    using that by (simp add: deadline_noop_iff)
  have 7: "find (\<lambda>e. fst e = i) (timers s) = Some (i, due, DeadlineCb a) \<longrightarrow>
      (deadlineTimeout a s = s \<longrightarrow>
             trials (step (TimerFires i now rnd) s) = trials s
           \<and> heap (step (TimerFires i now rnd) s) = heap s
           \<and> currentTrial (step (TimerFires i now rnd) s) = currentTrial s
           \<and> phase (step (TimerFires i now rnd) s) = phase s)"
    using 6 by (simp add: fire_def)
  show ?thesis
    using 1 2 3 4 5 7 by blast
qed

theorem deadline_guard_witness:
  "missed (heap (deadlineTimeout 0
       (run [StartClicked 0, KeyDown ''l'' 10, TimerFires 2 210 (1 / 2)] init)) ! 0) = Some True
   \<and> deadlineTimeout 0
       (run [StartClicked 0, KeyDown ''l'' 10, TimerFires 2 210 (1 / 2), KeyDown ''y'' 500] init)
     = run [StartClicked 0, KeyDown ''l'' 10, TimerFires 2 210 (1 / 2), KeyDown ''y'' 500] init"
proof -
  let ?s = "run [StartClicked 0, KeyDown ''l'' 10, TimerFires 2 210 (1 / 2)] init"
  let ?r = "run [StartClicked 0, KeyDown ''l'' 10, TimerFires 2 210 (1 / 2), KeyDown ''y'' 500] init"
  have a: "phase ?s = stimulus_on" "currentTrial ?s = Some 0"
    "respondedAt (heap ?r ! 0) \<noteq> None"
    by code_simp+
  show ?thesis
    using deadline_guard [where a = 0 and es = "[StartClicked 0, KeyDown ''l'' 10, TimerFires 2 210 (1 / 2)]", OF refl]
      deadline_guard [where a = 0
        and es = "[StartClicked 0, KeyDown ''l'' 10, TimerFires 2 210 (1 / 2), KeyDown ''y'' 500]", OF refl]
      a
    by blast
qed

section \<open>The debounce timestamp\<close>

lemma upper_keys: "toUpperCase ''r'' = ''R''" "toUpperCase ''l'' = ''L''" "toUpperCase ''y'' = ''Y''"
  "toUpperCase ''R'' = ''R''" "toUpperCase ''L'' = ''L''"
  by code_simp+

text \<open>
  Claim C5, as stated, fails: in \<open>awaiting_L\<close> an accepted \<open>R\<close> pressed at 1000 ms sets
  the premature flag and leaves \<^verbatim>\<open>lastResponseAt\<close> at 0.
\<close>

theorem premature_key_no_debounce_counterexample:
  "phase (run [StartClicked 0] init) = awaiting_L
   \<and> hasFocus (run [StartClicked 0] init)
   \<and> \<not> (1000 - lastResponseAt (run [StartClicked 0] init) < KEY_DEBOUNCE_MS)
   \<and> flagPrematureForNext (step (KeyDown ''r'' 1000) (run [StartClicked 0] init))
   \<and> lastResponseAt (step (KeyDown ''r'' 1000) (run [StartClicked 0] init)) \<noteq> 1000"
  by code_simp

text \<open>
  Claim C5, amended. \<^verbatim>\<open>handleKeyDown\<close> sets \<^verbatim>\<open>lastResponseAt\<close> to the event time
  exactly when the window has focus, the key is not the gate key, the debounce window has
  passed, the phase is \<open>stimulus_on\<close> with an active trial, and the key is a single
  letter; in every other case the timestamp is unchanged. In \<open>awaiting_L\<close> an accepted
  key changes nothing but the premature flag, which \<open>R\<close>, \<open>Y\<close> and \<open>G\<close> set; a key
  inside the debounce window changes nothing.
\<close>

theorem debounce_timestamp:
  "lastResponseAt (handleKeyDown k now s)
     = (if hasFocus s \<and> toUpperCase k \<noteq> ''L'' \<and> \<not> now - lastResponseAt s < KEY_DEBOUNCE_MS
           \<and> phase s = stimulus_on \<and> currentTrial s \<noteq> None \<and> isLetter (toUpperCase k)
        then now else lastResponseAt s)
   \<and> (hasFocus s \<and> toUpperCase k \<noteq> ''L'' \<and> \<not> now - lastResponseAt s < KEY_DEBOUNCE_MS
        \<and> phase s = awaiting_L \<longrightarrow>
        handleKeyDown k now s
          = (if toUpperCase k = ''R'' \<or> toUpperCase k = ''Y'' \<or> toUpperCase k = ''G''
             then s\<lparr>flagPrematureForNext := True\<rparr> else s))
   \<and> (hasFocus s \<and> toUpperCase k \<noteq> ''L'' \<and> now - lastResponseAt s < KEY_DEBOUNCE_MS \<longrightarrow>
        handleKeyDown k now s = s)"
  unfolding handleKeyDown_def Let_def
  by (simp split: option.splits)

theorem debounce_timestamp_witness:
  "lastResponseAt (handleKeyDown ''y'' 500
      (run [StartClicked 0, KeyDown ''l'' 10, TimerFires 2 210 (1 / 2)] init)) = 500
   \<and> lastResponseAt (handleKeyDown ''r'' 1000 (run [StartClicked 0] init)) = 0
   \<and> handleKeyDown ''r'' 1000 (run [StartClicked 0] init)
        = (run [StartClicked 0] init)\<lparr>flagPrematureForNext := True\<rparr>"
proof -
  let ?s = "run [StartClicked 0, KeyDown ''l'' 10, TimerFires 2 210 (1 / 2)] init"
  let ?g = "run [StartClicked 0] init"
  have a: "hasFocus ?s" "\<not> 500 - lastResponseAt ?s < KEY_DEBOUNCE_MS" "phase ?s = stimulus_on"
    "currentTrial ?s \<noteq> None" "isLetter ''Y''" "lastResponseAt ?g = 0"
    "hasFocus ?g" "\<not> 1000 - lastResponseAt ?g < KEY_DEBOUNCE_MS" "phase ?g = awaiting_L"
    by code_simp+
  have l: "''Y'' \<noteq> ''L''" "''R'' \<noteq> ''L''" by simp_all
  show ?thesis
    using debounce_timestamp [of "''y''" 500 ?s] debounce_timestamp [of "''r''" 1000 ?g] a l
    by (simp add: upper_keys)
qed

section \<open>Timers and the gate key\<close>



lemma timers_clearTimer [simp]:
  "timers (clearTimer s)
     = (if truthy_handle (timerId s) then filter (\<lambda>e. fst e \<noteq> the (timerId s)) (timers s)
        else timers s)"
  by (cases "timerId s") (simp_all add: clearTimer_def)

lemma timerId_clearTimer [simp]:
  "timerId (clearTimer s) = (if truthy_handle (timerId s) then None else timerId s)"
  by (cases "timerId s") (simp_all add: clearTimer_def)

lemma timers_endTest [simp]:
  "timers (endTest s) = (if phase s = finished then timers s else timers (clearTimer s))"
  by (simp add: endTest_def)

lemma timerId_endTest [simp]:
  "timerId (endTest s) = (if phase s = finished then timerId s else timerId (clearTimer s))"
  by (simp add: endTest_def)

lemma truthy_the: "truthy_handle h \<Longrightarrow> h = Some (the h) \<and> the h \<noteq> 0"
  by (cases h) simp_all






section \<open>Steps that do not touch the gate\<close>



















section \<open>A registered press of the gate key\<close>

lemma L_HOLD_wait: "max 1 (L_HOLD_MS - (t - t)) = L_HOLD_MS"
  by (simp add: L_HOLD_MS_def)




section \<open>Release before the threshold\<close>










section \<open>The timer queue in reachable states\<close>
















section \<open>The window before the threshold\<close>







section \<open>No reveal callback pending\<close>










section \<open>The hold up to the threshold and beyond\<close>











end
